theory Spec2Isabelle
  imports Main "HOL-Library.Multiset" "HOL-Library.Log_Nat"
begin

section \<open>RealitioERC20Contract: event replay and claim-chain reconstruction\<close>

text \<open>
  A shallow embedding of \<^verbatim>\<open>RealitioERC20Contract\<close> (getQuestion,
  getQuestionBondsByAnswer, getMyBonds, claimWinnings). Hashes, addresses, question ids
  and answer ids are the hex strings web3 returns; a raw bond is the unsigned integer
  held by the ledger (web3 hands it over as a decimal string). The JavaScript objects
  that the loops fill are keyed by such hex strings, none of which is a name inherited
  from \<^verbatim>\<open>Object.prototype\<close>, so an object is a map from strings that starts empty.
\<close>

subsection \<open>Ledger data\<close>

text \<open>The \<^verbatim>\<open>returnValues\<close> of one \<^verbatim>\<open>LogNewAnswer\<close> event.\<close>

record returnValues =
  question_id :: string
  user :: string
  answer :: string
  bond :: nat
  history_hash :: string

text \<open>
  Modelled from the spec: \<^verbatim>\<open>Numbers.nullHash()\<close> (utils/Numbers is not among the
  sources) is the NULL_HASH sentinel, "no prior history": the all-zero bytes32.
\<close>

definition nullHash :: string where
  "nullHash = ''0x0000000000000000000000000000000000000000000000000000000000000000''"

subsection \<open>The claim chain (claimWinnings, the four argument arrays)\<close>

text \<open>
  \<^verbatim>\<open>events.map(e => e.returnValues.history_hash).slice(0, -1).reverse()\<close> followed by
  \<^verbatim>\<open>historyHashes.push(Numbers.nullHash())\<close>. \<^verbatim>\<open>slice(0, -1)\<close> drops the last
  element and leaves an empty array empty, as \<^const>\<open>butlast\<close> does.
\<close>

definition historyHashes :: "returnValues list \<Rightarrow> string list" where
  "historyHashes events = rev (butlast (map history_hash events)) @ [nullHash]"

definition addrs :: "returnValues list \<Rightarrow> string list" where
  "addrs events = rev (map user events)"

definition bonds :: "returnValues list \<Rightarrow> nat list" where
  "bonds events = rev (map bond events)"

definition answers :: "returnValues list \<Rightarrow> string list" where
  "answers events = rev (map answer events)"

text \<open>The arguments of the contract method \<^verbatim>\<open>claimWinnings\<close>, in call order.\<close>

record claim_args =
  arg_question_id :: string
  arg_history_hashes :: "string list"
  arg_addrs :: "string list"
  arg_bonds :: "nat list"
  arg_answers :: "string list"

definition claim_chain :: "string \<Rightarrow> returnValues list \<Rightarrow> claim_args" where
  "claim_chain questionId events =
     \<lparr> arg_question_id = questionId,
       arg_history_hashes = historyHashes events,
       arg_addrs = addrs events,
       arg_bonds = bonds events,
       arg_answers = answers events \<rparr>"

subsection \<open>JavaScript numbers\<close>

text \<open>
  The accumulators are JavaScript Numbers, IEEE-754 doubles. Bonds are unsigned, so
  every Number that occurs here is non-negative: it is a finite double, written as the
  rational it denotes, or \<open>Infinity\<close>. No NaN and no negative value can arise from adding
  and scaling non-negative values, and \<open>-0\<close> does not arise either.
\<close>

datatype number = Finite rat | Infinity

definition pow2 :: "int \<Rightarrow> rat" where
  "pow2 k = (if 0 \<le> k then 2 ^ nat k else 1 / 2 ^ nat (- k))"

definition roundTiesToEven :: "rat \<Rightarrow> int" where
  "roundTiesToEven x =
     (let f = \<lfloor>x\<rfloor>; d = x - of_int f
      in if d < 1 / 2 then f else if 1 / 2 < d then f + 1 else if even f then f else f + 1)"

text \<open>
  \<open>binade x\<close> is \<open>\<lfloor>log\<^sub>2 x\<rfloor>\<close> for \<open>x > 0\<close>: one less than the bit length of \<open>\<lfloor>x\<rfloor>\<close> from
  \<open>1\<close> on, and below \<open>1\<close> the negated bit length of \<open>\<lceil>1 / x\<rceil> - 1\<close>.
\<close>

definition binade :: "rat \<Rightarrow> int" where
  "binade x = (if 1 \<le> x then bitlen \<lfloor>x\<rfloor> - 1 else - bitlen (\<lceil>1 / x\<rceil> - 1))"

text \<open>
  The double nearest to a non-negative real, ties to even: 53 significant bits, the
  exponent of the last place no smaller than \<open>-1074\<close> (subnormals), and \<open>Infinity\<close> from
  \<open>2\<^sup>1\<^sup>0\<^sup>2\<^sup>4\<close> on. Reading a decimal string as a Number, \<^verbatim>\<open>+\<close> and \<^verbatim>\<open>/\<close> each
  yield the exact result rounded this way. The argument is never negative here, and \<open>0\<close>
  stays \<open>0\<close>.
\<close>

definition toDouble :: "rat \<Rightarrow> number" where
  "toDouble x =
     (if x \<le> 0 then Finite 0
      else let e = max (binade x - 52) (- 1074);
               r = of_int (roundTiesToEven (x / pow2 e)) * pow2 e
           in if pow2 1024 \<le> r then Infinity else Finite r)"

text \<open>JavaScript \<^verbatim>\<open>a + b\<close> on two such Numbers.\<close>

fun js_add :: "number \<Rightarrow> number \<Rightarrow> number" where
  "js_add (Finite a) (Finite b) = toDouble (a + b)"
| "js_add _ _ = Infinity"

text \<open>JavaScript \<^verbatim>\<open>!x\<close> on such a Number: only \<open>0\<close> is falsy.\<close>

definition falsy :: "number \<Rightarrow> bool" where
  "falsy x = (x = Finite 0)"

text \<open>
  Modelled from the spec: \<^verbatim>\<open>Numbers.fromDecimalsNumber(value, decimals)\<close> (utils/Numbers
  is not among the sources) converts a ledger-native fixed-point amount to a decimal
  value by scaling with \<open>10\<^sup>d\<^sup>e\<^sup>c\<^sup>i\<^sup>m\<^sup>a\<^sup>l\<^sup>s\<close> in JavaScript arithmetic: the decimal string of
  the raw amount becomes a Number, which is divided by \<^verbatim>\<open>10 ** decimals\<close>. The scale is
  an exact double for \<open>decimals \<le> 22\<close>; the callers pass 18.
\<close>

definition fromDecimalsNumber :: "nat \<Rightarrow> nat \<Rightarrow> number" where
  "fromDecimalsNumber v decimals =
     (case toDouble (of_nat v) of
        Finite a \<Rightarrow> toDouble (a / 10 ^ decimals)
      | Infinity \<Rightarrow> Infinity)"

subsection \<open>The instance and its members\<close>

text \<open>
  \<^verbatim>\<open>RealitioERC20Contract\<close> extends \<^verbatim>\<open>IContract\<close>. An instance has the fields that the
  constructor of \<^verbatim>\<open>IContract\<close> sets, the methods of \<^verbatim>\<open>IContract\<close> and the methods of
  \<^verbatim>\<open>RealitioERC20Contract\<close>; beyond these only what every object inherits from
  \<^verbatim>\<open>Object.prototype\<close>, which has none of the names looked up below.
\<close>

definition IContract_members :: "string list" where
  "IContract_members =
     [''web3'', ''acc'', ''params'', ''__init__'', ''__metamaskCall'', ''__sendTx'',
      ''__deploy'', ''__assert'', ''deploy'', ''getWeb3Contract'', ''setNewOwner'', ''owner'',
      ''isPaused'', ''pauseContract'', ''unpauseContract'', ''removeOtherERC20Tokens'',
      ''safeGuardAllTokens'', ''changeTokenAddress'', ''getAddress'', ''getBalance'',
      ''getUserAddress'', ''onlyOwner'', ''whenNotPaused'']"

definition RealitioERC20Contract_members :: "string list" where
  "RealitioERC20Contract_members =
     [''getQuestion'', ''getQuestionBestAnswer'', ''getResultForQuestion'',
      ''getQuestionBondsByAnswer'', ''submitAnswerERC20'', ''getMyBonds'', ''claimWinnings'']
     @ IContract_members"

subsection \<open>Calls and their effects\<close>

text \<open>
  Every \<^verbatim>\<open>await\<close> of the source is a call whose promise may reject. A computation returns
  the calls to the outside it made, in order, and either the error that stopped it or its
  result. \<open>TypeError name\<close> is the error of calling \<^verbatim>\<open>this.name(\<dots>)\<close> when the instance has
  no member of that name: the lookup yields \<^verbatim>\<open>undefined\<close>, which is not a function.
\<close>

datatype error = TypeError string | SourceUnavailable | SubmissionRejected string

text \<open>The \<^verbatim>\<open>filter\<close> option of \<^verbatim>\<open>getPastEvents('LogNewAnswer', \<dots>)\<close>; an absent or
  undefined key is \<open>None\<close>. \<^verbatim>\<open>fromBlock: 0, toBlock: 'latest'\<close> are the same in every call.\<close>

record event_filter =
  filter_question_id :: "string option"
  filter_user :: "string option"

text \<open>The fields of the contract's question struct that \<^verbatim>\<open>getQuestion\<close> reads.\<close>

record question_struct =
  qs_bond :: nat
  qs_best_answer :: string
  qs_finalize_ts :: nat
  qs_history_hash :: string

datatype call =
    Call_questions string
  | Call_isFinalized string
  | Call_getPastEvents event_filter
  | Call_getMyAccount
  | Call_sendTx claim_args

text \<open>
  What the objects behind the looked-up members answer, for the code that follows a
  lookup: \<^verbatim>\<open>methods.questions(id).call()\<close>, \<^verbatim>\<open>methods.isFinalized(id).call()\<close> and
  \<^verbatim>\<open>getPastEvents\<close> of the contract object, the account, and the receipt of the
  transaction that \<^verbatim>\<open>__sendTx(\<dots>, false)\<close> submits.
\<close>

record 'r gateway =
  questions :: "string \<Rightarrow> error + question_struct"
  isFinalized_call :: "string \<Rightarrow> error + bool"
  getPastEvents :: "event_filter \<Rightarrow> error + returnValues list"
  getMyAccount :: "error + string option"
  sendTx :: "claim_args \<Rightarrow> error + 'r"

type_synonym 'a io = "call list \<times> (error + 'a)"

definition ret :: "'a \<Rightarrow> 'a io" where
  "ret x = ([], Inr x)"

definition perform :: "call \<Rightarrow> error + 'a \<Rightarrow> 'a io" where
  "perform c r = ([c], r)"

definition bind_io :: "'a io \<Rightarrow> ('a \<Rightarrow> 'b io) \<Rightarrow> 'b io" where
  "bind_io m f =
     (case m of
        (t, Inl e) \<Rightarrow> (t, Inl e)
      | (t, Inr x) \<Rightarrow> (case f x of (t', r) \<Rightarrow> (t @ t', r)))"

text \<open>
  \<^verbatim>\<open>this.name(\<dots>)\<close> followed by the rest of the computation: without a member of that
  name the call throws, and nothing after it runs.
\<close>

definition this_method :: "string \<Rightarrow> 'a io \<Rightarrow> 'a io" where
  "this_method name rest =
     (if name \<in> set RealitioERC20Contract_members then rest
      else ([], Inl (TypeError name)))"

subsection \<open>getQuestion\<close>

record question =
  qid :: string
  qbond :: number
  bestAnswer :: string
  finalizeTs :: nat
  isFinalized :: bool
  isClaimed :: bool

text \<open>
  The object that \<^verbatim>\<open>getQuestion\<close> builds from the struct and the flag it has read:
  \<^verbatim>\<open>isClaimed = isFinalized && question.history_hash === Numbers.nullHash()\<close> and the
  returned literal.
\<close>

definition question_object :: "string \<Rightarrow> question_struct \<Rightarrow> bool \<Rightarrow> question" where
  "question_object questionId q fin =
     \<lparr> qid = questionId,
       qbond = fromDecimalsNumber (qs_bond q) 18,
       bestAnswer = qs_best_answer q,
       finalizeTs = qs_finalize_ts q,
       isFinalized = fin,
       isClaimed = (fin \<and> qs_history_hash q = nullHash) \<rparr>"


subsection \<open>getQuestionBondsByAnswer\<close>

text \<open>
  \<^verbatim>\<open>if (!m[k]) m[k] = 0; m[k] += x\<close> on an object \<open>m\<close> whose values are Numbers: a missing
  or falsy entry is reset to \<open>0\<close>, then \<open>x\<close> is added.
\<close>

definition accumulate :: "(string \<rightharpoonup> number) \<Rightarrow> string \<Rightarrow> number \<Rightarrow> (string \<rightharpoonup> number)" where
  "accumulate m k x =
     (let cur = (case m k of None \<Rightarrow> Finite 0 | Some v \<Rightarrow> if falsy v then Finite 0 else v)
      in m(k \<mapsto> js_add cur x))"

text \<open>The body of \<^verbatim>\<open>answers.forEach\<close>, and the loop from the empty object.\<close>

definition add_answer_bond :: "returnValues \<Rightarrow> (string \<rightharpoonup> number) \<Rightarrow> (string \<rightharpoonup> number)" where
  "add_answer_bond a m = accumulate m (answer a) (fromDecimalsNumber (bond a) 18)"

definition bondsByAnswer :: "returnValues list \<Rightarrow> (string \<rightharpoonup> number)" where
  "bondsByAnswer events = fold add_answer_bond events Map.empty"

definition getQuestionBondsByAnswer ::
    "'r gateway \<Rightarrow> string \<Rightarrow> string option \<Rightarrow> (string \<rightharpoonup> number) io" where
  "getQuestionBondsByAnswer c questionId usr =
     this_method ''getContract''
       (bind_io (perform (Call_getPastEvents
                   \<lparr>filter_question_id = Some questionId, filter_user = usr\<rparr>)
                 (getPastEvents c \<lparr>filter_question_id = Some questionId, filter_user = usr\<rparr>))
          (\<lambda>events. ret (bondsByAnswer events)))"

subsection \<open>getMyBonds\<close>

record bond_entry =
  total :: number
  by_answer :: "string \<rightharpoonup> number"

text \<open>
  The body of \<^verbatim>\<open>events.forEach\<close>: an entry \<^verbatim>\<open>{ total: 0, answers: {} }\<close> is created for a
  question seen for the first time (an object is never falsy), the answer's amount is
  initialised, and the converted bond is added to both.
\<close>

definition add_my_bond :: "returnValues \<Rightarrow> (string \<rightharpoonup> bond_entry) \<Rightarrow> (string \<rightharpoonup> bond_entry)" where
  "add_my_bond event m =
     (let questionId = question_id event;
          entry = (case m questionId of
                     None \<Rightarrow> \<lparr> total = Finite 0, by_answer = Map.empty \<rparr>
                   | Some en \<Rightarrow> en);
          b = fromDecimalsNumber (bond event) 18
      in m(questionId \<mapsto>
            \<lparr> total = js_add (total entry) b,
              by_answer = accumulate (by_answer entry) (answer event) b \<rparr>))"

definition myBonds :: "returnValues list \<Rightarrow> (string \<rightharpoonup> bond_entry)" where
  "myBonds events = fold add_my_bond events Map.empty"

text \<open>
  \<^verbatim>\<open>const account = await this.getMyAccount(); if (!account) return {}\<close> (undefined and
  the empty string are falsy), then the event query through \<^verbatim>\<open>this.getContract()\<close> and
  the loop.
\<close>

definition getMyBonds :: "'r gateway \<Rightarrow> (string \<rightharpoonup> bond_entry) io" where
  "getMyBonds c =
     this_method ''getMyAccount''
       (bind_io (perform Call_getMyAccount (getMyAccount c)) (\<lambda>account.
          case account of
            None \<Rightarrow> ret Map.empty
          | Some acct \<Rightarrow>
              if acct = [] then ret Map.empty
              else this_method ''getContract''
                     (bind_io (perform (Call_getPastEvents
                                 \<lparr>filter_question_id = None, filter_user = Some acct\<rparr>)
                               (getPastEvents c
                                 \<lparr>filter_question_id = None, filter_user = Some acct\<rparr>))
                        (\<lambda>events. ret (myBonds events)))))"

subsection \<open>claimWinnings\<close>



subsection \<open>Sums of Numbers\<close>

text \<open>
  The converted bond of each event, and the left-to-right JavaScript sum
  \<^verbatim>\<open>((0 + x\<^sub>1) + x\<^sub>2) + \<dots>\<close> that an accumulator started at \<open>0\<close> holds after adding
  \<open>x\<^sub>1, x\<^sub>2, \<dots>\<close> in turn.
\<close>

definition amounts :: "returnValues list \<Rightarrow> number list" where
  "amounts events = map (\<lambda>e. fromDecimalsNumber (bond e) 18) events"

definition js_sum :: "number list \<Rightarrow> number" where
  "js_sum xs = fold (\<lambda>x acc. js_add acc x) xs (Finite 0)"

fun value_of :: "number \<Rightarrow> rat" where
  "value_of (Finite r) = r"
| "value_of Infinity = 0"

text \<open>
  A rational is representable when it is a double. A list of Numbers adds exactly when
  none of the additions of its left-to-right sum rounds: every Number is finite and
  every partial sum is representable.
\<close>

definition representable :: "rat \<Rightarrow> bool" where
  "representable r = (toDouble r = Finite r)"

fun exact_from :: "rat \<Rightarrow> number list \<Rightarrow> bool" where
  "exact_from acc [] = True"
| "exact_from acc (Finite r # xs) = (representable (acc + r) \<and> exact_from (acc + r) xs)"
| "exact_from acc (Infinity # xs) = False"

definition adds_exactly :: "number list \<Rightarrow> bool" where
  "adds_exactly xs = exact_from 0 xs"

text \<open>
  Two orders \<open>xs'\<close> and \<open>xs\<close> of the same Numbers certainly have the same left-to-right
  sum when they are the same order, when there are at most two Numbers (the first
  addition is to \<open>0\<close>, and \<^verbatim>\<open>a + b\<close> is \<^verbatim>\<open>b + a\<close>), or when both add exactly.
\<close>

definition order_safe :: "number list \<Rightarrow> number list \<Rightarrow> bool" where
  "order_safe xs' xs = (xs' = xs \<or> length xs \<le> 2 \<or> (adds_exactly xs \<and> adds_exactly xs'))"

text \<open>The exact sum of the amounts that an object holds; it is infinite when one of them is.\<close>

definition sum_of_amounts :: "(string \<rightharpoonup> number) \<Rightarrow> number" where
  "sum_of_amounts m =
     (if Infinity \<in> ran m then Infinity
      else Finite (\<Sum>k\<in>dom m. value_of (the (m k))))"

subsection \<open>Example events\<close>

definition answer_event :: "string \<Rightarrow> string \<Rightarrow> nat \<Rightarrow> string \<Rightarrow> returnValues" where
  "answer_event u a b h =
     \<lparr>question_id = ''Q1'', user = u, answer = a, bond = b, history_hash = h\<rparr>"

text \<open>Question \<open>Q1\<close> with three answers, the bonds given as raw ledger amounts.\<close>

definition three_events :: "nat \<Rightarrow> nat \<Rightarrow> nat \<Rightarrow> returnValues list" where
  "three_events b1 b2 b3 =
     [answer_event ''A'' ''1'' b1 ''h1'',
      answer_event ''B'' ''2'' b2 ''h2'',
      answer_event ''A'' ''1'' b3 ''h3'']"

text \<open>Three answers of the one user \<open>A\<close> to \<open>Q1\<close>, the second for a chosen answer id.\<close>

definition one_user_events :: "string \<Rightarrow> nat \<Rightarrow> nat \<Rightarrow> nat \<Rightarrow> returnValues list" where
  "one_user_events a2 b1 b2 b3 =
     [answer_event ''A'' ''1'' b1 ''h1'',
      answer_event ''A'' a2 b2 ''h2'',
      answer_event ''A'' ''1'' b3 ''h3'']"

section \<open>Properties of the claim chain\<close>

text \<open>
  C1. For events \<open>e\<^sub>0 \<dots> e\<^sub>n\<^sub>-\<^sub>1\<close> in ascending ledger order with \<open>n \<ge> 1\<close>, the
  history-hash array is the hashes of \<open>e\<^sub>0 \<dots> e\<^sub>n\<^sub>-\<^sub>2\<close> (that is, of \<open>take (n - 1)\<close>)
  reversed, followed by one \<open>nullHash\<close>, and has length \<open>n\<close>.
\<close>

theorem historyHashes_nonempty:
  assumes "events \<noteq> []"
  shows "historyHashes events
           = rev (map history_hash (take (length events - 1) events)) @ [nullHash]
         \<and> length (historyHashes events) = length events
         \<and> (\<forall>i < length events - 1.
               historyHashes events ! i = history_hash (events ! (length events - 2 - i)))
         \<and> historyHashes events ! (length events - 1) = nullHash"
proof -
  let ?n = "length events"
  have n: "0 < ?n" using assms by simp
  have bl: "butlast (map history_hash events) = map history_hash (take (?n - 1) events)"
    by (simp add: butlast_conv_take take_map)
  have eq: "historyHashes events = rev (map history_hash (take (?n - 1) events)) @ [nullHash]"
    by (simp add: historyHashes_def bl)
  have len: "length (historyHashes events) = ?n"
    using n by (simp add: historyHashes_def)
  have idx: "historyHashes events ! i = history_hash (events ! (?n - 2 - i))"
    if "i < ?n - 1" for i
  proof -
    have "historyHashes events ! i = rev (map history_hash (take (?n - 1) events)) ! i"
      using that by (simp add: eq nth_append)
    also have "\<dots> = map history_hash (take (?n - 1) events) ! (?n - 1 - Suc i)"
      using that by (simp add: rev_nth)
    also have "\<dots> = history_hash (events ! (?n - 2 - i))"
    proof -
      have "?n - 1 - Suc i = ?n - 2 - i" by simp
      moreover have "?n - 2 - i < ?n - 1" using that by arith
      ultimately show ?thesis by simp
    qed
    finally show ?thesis .
  qed
  have lst: "historyHashes events ! (?n - 1) = nullHash"
    using n by (simp add: historyHashes_def nth_append)
  from eq len idx lst show ?thesis by blast
qed

theorem historyHashes_nonempty_witness:
  "[\<lparr>question_id = ''q'', user = ''a'', answer = ''1'', bond = 10, history_hash = ''h1''\<rparr>,
    \<lparr>question_id = ''q'', user = ''b'', answer = ''2'', bond = 20, history_hash = ''h2''\<rparr>] \<noteq> []
   \<and> historyHashes
        [\<lparr>question_id = ''q'', user = ''a'', answer = ''1'', bond = 10, history_hash = ''h1''\<rparr>,
         \<lparr>question_id = ''q'', user = ''b'', answer = ''2'', bond = 20, history_hash = ''h2''\<rparr>]
       = [''h1'', nullHash]"
  using historyHashes_nonempty
    [of "[\<lparr>question_id = ''q'', user = ''a'', answer = ''1'', bond = 10, history_hash = ''h1''\<rparr>,
          \<lparr>question_id = ''q'', user = ''b'', answer = ''2'', bond = 20, history_hash = ''h2''\<rparr>]"]
  by simp

text \<open>
  C2. For a non-empty event sequence the address, bond and answer arrays of the claim
  chain are the whole event sequence reversed: each has length \<open>n\<close>, position \<open>i\<close> holds
  the field of event \<open>n - 1 - i\<close>, so the first element comes from the most recent event
  and the last from the oldest.
\<close>

theorem chain_newest_first:
  assumes "events \<noteq> []"
  shows "length (arg_addrs (claim_chain questionId events)) = length events
         \<and> length (arg_bonds (claim_chain questionId events)) = length events
         \<and> length (arg_answers (claim_chain questionId events)) = length events
         \<and> (\<forall>i < length events.
               arg_addrs (claim_chain questionId events) ! i
                 = user (events ! (length events - 1 - i))
             \<and> arg_bonds (claim_chain questionId events) ! i
                 = bond (events ! (length events - 1 - i))
             \<and> arg_answers (claim_chain questionId events) ! i
                 = answer (events ! (length events - 1 - i)))
         \<and> hd (arg_addrs (claim_chain questionId events)) = user (last events)
         \<and> hd (arg_bonds (claim_chain questionId events)) = bond (last events)
         \<and> hd (arg_answers (claim_chain questionId events)) = answer (last events)
         \<and> last (arg_addrs (claim_chain questionId events)) = user (hd events)
         \<and> last (arg_bonds (claim_chain questionId events)) = bond (hd events)
         \<and> last (arg_answers (claim_chain questionId events)) = answer (hd events)"
proof -
  have lens: "length (addrs events) = length events" "length (bonds events) = length events"
    "length (answers events) = length events"
    by (simp_all add: addrs_def bonds_def answers_def)
  have nth: "addrs events ! i = user (events ! (length events - 1 - i))
      \<and> bonds events ! i = bond (events ! (length events - 1 - i))
      \<and> answers events ! i = answer (events ! (length events - 1 - i))"
    if "i < length events" for i
    using that by (simp add: addrs_def bonds_def answers_def rev_nth)
  have hds: "hd (addrs events) = user (last events)" "hd (bonds events) = bond (last events)"
    "hd (answers events) = answer (last events)"
    using assms by (simp_all add: addrs_def bonds_def answers_def hd_rev last_map)
  have lasts: "last (addrs events) = user (hd events)" "last (bonds events) = bond (hd events)"
    "last (answers events) = answer (hd events)"
    using assms by (simp_all add: addrs_def bonds_def answers_def last_rev hd_map)
  show ?thesis
    using lens nth hds lasts by (simp add: claim_chain_def)
qed

theorem chain_newest_first_witness:
  "[\<lparr>question_id = ''q'', user = ''a'', answer = ''1'', bond = 10, history_hash = ''h1''\<rparr>,
    \<lparr>question_id = ''q'', user = ''b'', answer = ''2'', bond = 20, history_hash = ''h2''\<rparr>] \<noteq> []
   \<and> hd (arg_addrs (claim_chain ''q''
        [\<lparr>question_id = ''q'', user = ''a'', answer = ''1'', bond = 10, history_hash = ''h1''\<rparr>,
         \<lparr>question_id = ''q'', user = ''b'', answer = ''2'', bond = 20, history_hash = ''h2''\<rparr>]))
       = ''b''
   \<and> last (arg_bonds (claim_chain ''q''
        [\<lparr>question_id = ''q'', user = ''a'', answer = ''1'', bond = 10, history_hash = ''h1''\<rparr>,
         \<lparr>question_id = ''q'', user = ''b'', answer = ''2'', bond = 20, history_hash = ''h2''\<rparr>]))
       = 10"
  using chain_newest_first
    [of "[\<lparr>question_id = ''q'', user = ''a'', answer = ''1'', bond = 10, history_hash = ''h1''\<rparr>,
          \<lparr>question_id = ''q'', user = ''b'', answer = ''2'', bond = 20, history_hash = ''h2''\<rparr>]"
        "''q''"]
  by simp

text \<open>
  C3, as the code has it. The three reversed arrays always have length \<open>n\<close>. The hash
  array ends with \<open>nullHash\<close> for every \<open>n\<close>, because the sentinel is pushed
  unconditionally: its length is \<open>n\<close> for \<open>n \<ge> 1\<close> and \<open>1\<close> for \<open>n = 0\<close>, where the chain is
  \<open>[nullHash]\<close> with three empty arrays. Building the chain is a total function: it
  raises nothing.
\<close>

theorem chain_lengths:
  "length (arg_addrs (claim_chain questionId events)) = length events
   \<and> length (arg_bonds (claim_chain questionId events)) = length events
   \<and> length (arg_answers (claim_chain questionId events)) = length events
   \<and> length (arg_history_hashes (claim_chain questionId events))
       = (if events = [] then 1 else length events)
   \<and> last (arg_history_hashes (claim_chain questionId events)) = nullHash
   \<and> claim_chain questionId []
       = \<lparr> arg_question_id = questionId, arg_history_hashes = [nullHash],
           arg_addrs = [], arg_bonds = [], arg_answers = [] \<rparr>"
  by (simp add: claim_chain_def historyHashes_def addrs_def bonds_def answers_def)

text \<open>
  C3 as stated fails at \<open>n = 0\<close>: the hash array of the empty event sequence is not
  empty.
\<close>

theorem chain_lengths_counterexample:
  "arg_history_hashes (claim_chain ''Q1'' []) = [nullHash]
   \<and> length (arg_history_hashes (claim_chain ''Q1'' [])) \<noteq> length ([] :: returnValues list)"
  by (simp add: claim_chain_def historyHashes_def)

section \<open>The public methods on an instance\<close>

text \<open>
  \<^verbatim>\<open>IContract\<close> defines \<^verbatim>\<open>getWeb3Contract\<close> and \<^verbatim>\<open>getUserAddress\<close>, but neither
  \<^verbatim>\<open>getContract\<close> nor \<^verbatim>\<open>getMyAccount\<close>, and \<^verbatim>\<open>RealitioERC20Contract\<close> adds neither.
\<close>

lemma getContract_absent: "''getContract'' \<notin> set RealitioERC20Contract_members"
  by (simp add: RealitioERC20Contract_members_def IContract_members_def)

lemma getMyAccount_absent: "''getMyAccount'' \<notin> set RealitioERC20Contract_members"
  by (simp add: RealitioERC20Contract_members_def IContract_members_def)



lemma getQuestionBondsByAnswer_rejects:
  "getQuestionBondsByAnswer c questionId usr = ([], Inl (TypeError ''getContract''))"
  by (simp add: getQuestionBondsByAnswer_def this_method_def getContract_absent)


text \<open>
  C9 asks that \<open>getMyBonds\<close> return the empty object, without an error, when there is no
  account. On an instance it never does: its first step calls \<^verbatim>\<open>this.getMyAccount()\<close>,
  so it rejects with a TypeError before the test of the account, having made no call to
  the outside.
\<close>

theorem getMyBonds_rejects:
  "getMyBonds c = ([], Inl (TypeError ''getMyAccount''))"
  by (simp add: getMyBonds_def this_method_def getMyAccount_absent)

text \<open>
  C8. In the object that \<open>getQuestion\<close> builds from the question struct and the
  finalization flag, \<open>isClaimed\<close> is true exactly when the returned \<open>isFinalized\<close> is
  true and the struct's history hash is \<open>nullHash\<close>. \<open>isFinalized\<close> is the flag read,
  and \<open>isClaimed\<close> is derived from these two values alone: it stays the same whatever
  the question id and the other fields of the struct are.
\<close>

theorem isClaimed_derived:
  "isClaimed (question_object questionId q fin)
     = (isFinalized (question_object questionId q fin) \<and> qs_history_hash q = nullHash)
   \<and> isFinalized (question_object questionId q fin) = fin
   \<and> isClaimed (question_object questionId'
        (q\<lparr>qs_bond := b, qs_best_answer := a, qs_finalize_ts := ts\<rparr>) fin)
       = isClaimed (question_object questionId q fin)"
  by (simp add: question_object_def)

section \<open>Rounding to a double\<close>

lemma pow2_powi: "pow2 k = 2 powi k"
  by (simp add: pow2_def power_int_def inverse_eq_divide power_one_over)

lemma pow2_pos: "0 < pow2 k"
  by (simp add: pow2_powi)

lemma pow2_mono: "a \<le> b \<Longrightarrow> pow2 a \<le> pow2 b"
  by (simp add: pow2_powi power_int_increasing)

lemma pow2_nat: "0 \<le> k \<Longrightarrow> pow2 k = of_int (2 ^ nat k)"
  by (simp add: pow2_def)

lemma pow2_neg: "pow2 (- k) = 1 / pow2 k"
  by (simp add: pow2_powi power_int_minus inverse_eq_divide)

lemma bitlen_eqI: "2 ^ c \<le> n \<Longrightarrow> n < 2 ^ Suc c \<Longrightarrow> bitlen n = int c + 1"
proof -
  assume a: "2 ^ c \<le> n" "n < 2 ^ Suc c"
  have "bitlen n \<le> int c + 1"
    using a(2) by (simp add: bitlen_le_iff_power nat_add_distrib)
  moreover have "int c + 1 \<le> bitlen n"
    using a(1) by (simp add: bitlen_ge_iff_power nat_add_distrib)
  ultimately show ?thesis by simp
qed

lemma binade_eqI:
  assumes lo: "pow2 b \<le> x" and hi: "x < pow2 (b + 1)"
  shows "binade x = b"
proof (cases "1 \<le> x")
  case True
  have b0: "0 \<le> b"
  proof (rule ccontr)
    assume "\<not> 0 \<le> b"
    then have "pow2 (b + 1) \<le> pow2 0" by (intro pow2_mono) simp
    with hi True show False by (simp add: pow2_def)
  qed
  define c where "c = nat b"
  have b: "b = int c" using b0 by (simp add: c_def)
  have "of_int (2 ^ c) \<le> x" using lo by (simp add: b pow2_def)
  then have l: "2 ^ c \<le> \<lfloor>x\<rfloor>" by (simp add: le_floor_iff)
  have "x < of_int (2 ^ Suc c)" using hi by (simp add: b pow2_def nat_add_distrib)
  then have h: "\<lfloor>x\<rfloor> < 2 ^ Suc c" by (simp add: floor_less_iff)
  from bitlen_eqI [OF l h] True show ?thesis by (simp add: binade_def b)
next
  case False
  then have x1: "x < 1" by simp
  have xpos: "0 < x" using lo pow2_pos [of b] by simp
  have bneg: "b < 0"
  proof (rule ccontr)
    assume "\<not> b < 0"
    then have "pow2 0 \<le> pow2 b" by (intro pow2_mono) simp
    with lo x1 show False by (simp add: pow2_def)
  qed
  define c where "c = nat (- b - 1)"
  have b: "b = - int c - 1" using bneg by (simp add: c_def)
  have lo': "1 / 2 ^ Suc c \<le> x"
    using lo by (simp add: b pow2_def nat_add_distrib)
  have hi': "x < 1 / 2 ^ c"
    using hi by (cases "c = 0") (simp_all add: b pow2_def)
  have y_hi: "1 / x \<le> 2 ^ Suc c"
    using lo' xpos by (simp add: field_simps)
  have y_lo: "2 ^ c < 1 / x"
    using hi' xpos by (simp add: field_simps)
  have "\<lceil>1 / x\<rceil> \<le> 2 ^ Suc c"
    using y_hi by (simp add: ceiling_le_iff)
  then have h: "\<lceil>1 / x\<rceil> - 1 < 2 ^ Suc c" by simp
  have "2 ^ c < \<lceil>1 / x\<rceil>"
    using y_lo by (simp add: less_ceiling_iff)
  then have l: "2 ^ c \<le> \<lceil>1 / x\<rceil> - 1" by simp
  from bitlen_eqI [OF l h] False show ?thesis by (simp add: binade_def b)
qed

lemma roundTiesToEven_near:
  assumes "of_int m - 1 / 2 < x" and "x < of_int m + 1 / 2"
  shows "roundTiesToEven x = m"
proof (cases "of_int m \<le> x")
  case True
  then have "\<lfloor>x\<rfloor> = m" using assms(2) by (simp add: floor_unique)
  then show ?thesis using assms(2) by (simp add: roundTiesToEven_def Let_def)
next
  case False
  then have f: "\<lfloor>x\<rfloor> = m - 1" using assms(1) by (intro floor_unique) simp_all
  then show ?thesis using assms(1) by (simp add: roundTiesToEven_def Let_def)
qed

lemma roundTiesToEven_tie_down:
  assumes "x = of_int m + 1 / 2" and "even m"
  shows "roundTiesToEven x = m"
proof -
  have "\<lfloor>x\<rfloor> = m" using assms(1) by (intro floor_unique) simp_all
  then show ?thesis using assms by (simp add: roundTiesToEven_def Let_def)
qed

lemma roundTiesToEven_tie_up:
  assumes "x = of_int m - 1 / 2" and "even m"
  shows "roundTiesToEven x = m"
proof -
  have "\<lfloor>x\<rfloor> = m - 1" using assms(1) by (intro floor_unique) simp_all
  then show ?thesis using assms by (simp add: roundTiesToEven_def Let_def)
qed

lemma toDouble_eqI:
  assumes "0 < x" and "pow2 b \<le> x" and "x < pow2 (b + 1)"
    and "e = max (b - 52) (- 1074)"
    and "roundTiesToEven (x / pow2 e) = m"
    and "of_int m * pow2 e < pow2 1024"
  shows "toDouble x = Finite (of_int m * pow2 e)"
  using assms by (simp add: toDouble_def Let_def binade_eqI [OF assms(2,3)])

text \<open>Whole numbers below \<open>2\<^sup>5\<^sup>3\<close> are doubles.\<close>

lemma roundTiesToEven_of_int: "roundTiesToEven (of_int m) = m"
  by (rule roundTiesToEven_near) simp_all

lemma representable_of_nat:
  assumes "n < 2 ^ 53"
  shows "representable (of_nat n)"
proof (cases "n = 0")
  case True
  then show ?thesis by (simp add: representable_def toDouble_def)
next
  case False
  then have npos: "0 < int n" by simp
  define b where "b = bitlen (int n) - 1"
  from bitlen_bounds [OF npos]
  have lo: "2 ^ nat b \<le> int n" and hi: "int n < 2 ^ nat (b + 1)"
    by (simp_all add: b_def)
  have "int n < 2 ^ nat 53" using assms by (simp add: nat_less_iff flip: of_nat_less_iff)
  then have "bitlen (int n) \<le> 53" by (simp add: bitlen_le_iff_power)
  then have b52: "b \<le> 52" by (simp add: b_def)
  have "bitlen (int n) \<noteq> 0" using npos by (simp add: bitlen_eq_zero_iff)
  with bitlen_nonneg [of "int n"] have b0: "0 \<le> b" by (simp add: b_def)
  define m where "m = int n * 2 ^ nat (52 - b)"
  have e: "b - 52 = max (b - 52) (- 1074)" using b0 by simp
  have p: "pow2 (52 - b) = of_int (2 ^ nat (52 - b))" using b52 by (simp add: pow2_nat)
  have pe: "pow2 (b - 52) = 1 / pow2 (52 - b)" using pow2_neg [of "52 - b"] by simp
  have scaled: "of_nat n / pow2 (b - 52) = of_int m"
    by (simp add: pe p m_def)
  have unscale: "of_int m * pow2 (b - 52) = of_nat n"
    using pow2_pos [of "52 - b"] by (simp add: pe m_def p)
  have "toDouble (of_nat n) = Finite (of_int m * pow2 (b - 52))"
  proof (rule toDouble_eqI [where b = b])
    show "0 < (of_nat n :: rat)" using False by simp
    have "(of_int (2 ^ nat b) :: rat) \<le> of_int (int n)" using lo by (simp only: of_int_le_iff)
    then show "pow2 b \<le> of_nat n" using b0 by (simp add: pow2_nat)
    have "(of_int (int n) :: rat) < of_int (2 ^ nat (b + 1))" using hi by (simp only: of_int_less_iff)
    then show "of_nat n < pow2 (b + 1)" using b0 by (simp add: pow2_nat)
    show "b - 52 = max (b - 52) (- 1074)" by (rule e)
    show "roundTiesToEven (of_nat n / pow2 (b - 52)) = m"
      by (simp add: scaled roundTiesToEven_of_int)
    have "(of_nat n :: rat) < of_nat (2 ^ 53)" using assms by (simp only: of_nat_less_iff)
    also have "\<dots> \<le> pow2 1024" by (simp add: pow2_def)
    finally show "of_int m * pow2 (b - 52) < pow2 1024" by (simp add: unscale)
  qed
  then show ?thesis by (simp add: representable_def unscale)
qed

lemma representable_numeral:
  "numeral k < (2::nat) ^ 53 \<Longrightarrow> representable (numeral k)"
  using representable_of_nat [of "numeral k"] by simp

lemma representable_0: "representable 0"
  by (simp add: representable_def toDouble_def)

text \<open>Every finite value that \<open>toDouble\<close> returns is a double.\<close>

lemma pow2_add: "pow2 (a + b) = pow2 a * pow2 b"
  by (simp add: pow2_powi power_int_add)

lemma roundTiesToEven_bounds: "\<lfloor>x\<rfloor> \<le> roundTiesToEven x \<and> roundTiesToEven x \<le> \<lfloor>x\<rfloor> + 1"
  by (simp add: roundTiesToEven_def Let_def)

lemma binade_bounds:
  assumes "0 < x"
  shows "pow2 (binade x) \<le> x" and "x < pow2 (binade x + 1)"
proof -
  have "pow2 (binade x) \<le> x \<and> x < pow2 (binade x + 1)"
  proof (cases "1 \<le> x")
    case True
    define n where "n = \<lfloor>x\<rfloor>"
    have npos: "0 < n" using True by (simp add: n_def)
    define L where "L = bitlen n"
    from bitlen_bounds [OF npos] have lo: "2 ^ nat (L - 1) \<le> n" and hi: "n < 2 ^ nat L"
      by (simp_all add: L_def)
    have L1: "1 \<le> L"
      using npos bitlen_eq_zero_iff [of n] bitlen_nonneg [of n] by (simp add: L_def)
    have b: "binade x = L - 1" using True by (simp add: binade_def n_def L_def)
    have "(of_int (2 ^ nat (L - 1)) :: rat) \<le> of_int n" using lo by (simp only: of_int_le_iff)
    also have "\<dots> \<le> x" by (simp add: n_def)
    finally have 1: "pow2 (L - 1) \<le> x" using L1 by (simp add: pow2_nat)
    have "n + 1 \<le> 2 ^ nat L" using hi by simp
    then have "(of_int (n + 1) :: rat) \<le> of_int (2 ^ nat L)" by (simp only: of_int_le_iff)
    moreover have "x < of_int (n + 1)" using floor_correct [of x] by (simp add: n_def)
    ultimately have "x < of_int (2 ^ nat L)" by simp
    then have 2: "x < pow2 L" using L1 by (simp add: pow2_nat)
    from 1 2 show ?thesis by (simp add: b)
  next
    case False
    then have x1: "x < 1" by simp
    define y where "y = 1 / x"
    have y1: "1 < y" using assms x1 by (simp add: y_def)
    define n where "n = \<lceil>y\<rceil> - 1"
    have "1 < \<lceil>y\<rceil>" using y1 by (simp add: less_ceiling_iff)
    then have npos: "0 < n" by (simp add: n_def)
    define L where "L = bitlen n"
    from bitlen_bounds [OF npos] have lo: "2 ^ nat (L - 1) \<le> n" and hi: "n < 2 ^ nat L"
      by (simp_all add: L_def)
    have L1: "1 \<le> L"
      using npos bitlen_eq_zero_iff [of n] bitlen_nonneg [of n] by (simp add: L_def)
    have b: "binade x = - L" using False by (simp add: binade_def n_def L_def y_def)
    have "y \<le> of_int \<lceil>y\<rceil>" by simp
    also have "\<dots> = of_int (n + 1)" by (simp add: n_def)
    also have "\<dots> \<le> of_int (2 ^ nat L)" using hi by (simp only: of_int_le_iff)
    finally have yhi: "y \<le> pow2 L" using L1 by (simp add: pow2_nat)
    have "(of_int (2 ^ nat (L - 1)) :: rat) \<le> of_int n" using lo by (simp only: of_int_le_iff)
    also have "\<dots> < y" using ceiling_correct [of y] by (simp add: n_def)
    finally have ylo: "pow2 (L - 1) < y" using L1 by (simp add: pow2_nat)
    have 1: "pow2 (- L) \<le> x"
      using yhi assms pow2_pos [of L] by (simp add: pow2_neg y_def field_simps)
    have p: "pow2 (- L + 1) = 1 / pow2 (L - 1)" using pow2_neg [of "L - 1"] by simp
    have "x * pow2 (L - 1) < 1" using ylo assms by (simp add: y_def field_simps)
    then have "x < 1 / pow2 (L - 1)" by (simp add: pos_less_divide_eq [OF pow2_pos])
    then have 2: "x < pow2 (- L + 1)" by (simp only: p)
    from 1 2 show ?thesis by (simp add: b)
  qed
  then show "pow2 (binade x) \<le> x" and "x < pow2 (binade x + 1)" by simp_all
qed


lemma representable_scaled:
  assumes m0: "0 < m" and m53: "m < 2 ^ 53" and e: "- 1074 \<le> e"
    and small: "of_int m * pow2 e < pow2 1024"
  shows "representable (of_int m * pow2 e)"
proof -
  define L where "L = bitlen m"
  from bitlen_bounds [OF m0] have lo: "2 ^ nat (L - 1) \<le> m" and hi: "m < 2 ^ nat L"
    by (simp_all add: L_def)
  have L1: "1 \<le> L"
    using m0 bitlen_eq_zero_iff [of m] bitlen_nonneg [of m] by (simp add: L_def)
  have "m < 2 ^ nat 53" using m53 by simp
  then have L53: "L \<le> 53" by (simp add: L_def bitlen_le_iff_power)
  define b where "b = L - 1 + e"
  define e' where "e' = max (b - 52) (- 1074)"
  have e'e: "e' \<le> e" using L53 e by (simp add: e'_def b_def)
  define m' where "m' = m * 2 ^ nat (e - e')"
  let ?x = "of_int m * pow2 e :: rat"
  have split: "pow2 e = pow2 (e - e') * pow2 e'"
    using pow2_add [of "e - e'" e'] by simp
  have pd: "pow2 (e - e') = of_int (2 ^ nat (e - e'))" using e'e by (simp add: pow2_nat)
  have unscale: "of_int m' * pow2 e' = ?x"
    by (simp add: m'_def split pd)
  have scaled: "?x / pow2 e' = of_int m'"
    using pow2_pos [of e'] by (simp add: unscale [symmetric])
  have "toDouble ?x = Finite (of_int m' * pow2 e')"
  proof (rule toDouble_eqI [where b = b])
    show "0 < ?x" using m0 pow2_pos [of e] by simp
    have "(of_int (2 ^ nat (L - 1)) :: rat) \<le> of_int m" using lo by (simp only: of_int_le_iff)
    then have "pow2 (L - 1) \<le> of_int m" using L1 by (simp add: pow2_nat)
    then have "pow2 (L - 1) * pow2 e \<le> ?x" using pow2_pos [of e] by simp
    then show "pow2 b \<le> ?x" by (simp add: b_def pow2_add)
    have "(of_int m :: rat) < of_int (2 ^ nat L)" using hi by (simp only: of_int_less_iff)
    then have "of_int m < pow2 L" using L1 by (simp add: pow2_nat)
    then have "?x < pow2 L * pow2 e" using pow2_pos [of e] by simp
    then show "?x < pow2 (b + 1)" by (simp add: b_def pow2_add)
    show "e' = max (b - 52) (- 1074)" by (rule e'_def)
    show "roundTiesToEven (?x / pow2 e') = m'" by (simp add: scaled roundTiesToEven_of_int)
    show "of_int m' * pow2 e' < pow2 1024" using small by (simp add: unscale)
  qed
  then show ?thesis by (simp add: representable_def unscale)
qed

lemma representable_toDouble:
  assumes "toDouble x = Finite r"
  shows "representable r"
proof (cases "x \<le> 0")
  case True
  with assms have "r = 0" by (simp add: toDouble_def)
  then show ?thesis by (simp add: representable_0)
next
  case False
  then have xpos: "0 < x" by simp
  define b where "b = binade x"
  define e where "e = max (b - 52) (- 1074)"
  define m where "m = roundTiesToEven (x / pow2 e)"
  have r: "r = of_int m * pow2 e" and small: "of_int m * pow2 e < pow2 1024"
    using assms False by (simp_all add: toDouble_def Let_def b_def e_def m_def split: if_splits)
  have e1074: "- 1074 \<le> e" by (simp add: e_def)
  have qpos: "0 < x / pow2 e" using xpos pow2_pos [of e] by simp
  have "x < pow2 (b + 1)" unfolding b_def by (rule binade_bounds [OF xpos])
  also have "pow2 (b + 1) \<le> pow2 (53 + e)" by (rule pow2_mono) (simp add: e_def)
  also have "\<dots> = pow2 53 * pow2 e" by (rule pow2_add)
  finally have "x / pow2 e < pow2 53" using pow2_pos [of e] by (simp add: field_simps)
  then have "x / pow2 e < of_int (2 ^ 53)" by (simp add: pow2_def)
  then have "\<lfloor>x / pow2 e\<rfloor> < 2 ^ 53" by (simp only: floor_less_iff)
  then have mhi: "m \<le> 2 ^ 53"
    unfolding m_def using roundTiesToEven_bounds [of "x / pow2 e"] by linarith
  have "0 \<le> \<lfloor>x / pow2 e\<rfloor>" using qpos by simp
  then have mlo: "0 \<le> m"
    unfolding m_def using roundTiesToEven_bounds [of "x / pow2 e"] by linarith
  consider "m = 0" | "0 < m" "m < 2 ^ 53" | "m = 2 ^ 53" using mlo mhi by linarith
  then show ?thesis
  proof cases
    case 1
    then show ?thesis by (simp add: r representable_0)
  next
    case 2
    then show ?thesis unfolding r using e1074 small by (rule representable_scaled)
  next
    case 3
    have "pow2 1 = 2" by (simp add: pow2_def)
    then have "pow2 (e + 1) = pow2 e * 2" by (simp add: pow2_add)
    then have eq: "of_int m * pow2 e = of_int (2 ^ 52) * pow2 (e + 1)"
      by (simp add: 3)
    have "representable (of_int (2 ^ 52) * pow2 (e + 1))"
    proof (rule representable_scaled)
      show "of_int (2 ^ 52) * pow2 (e + 1) < pow2 1024" using small by (simp only: eq)
    qed (use e1074 in simp_all)
    then show ?thesis by (simp only: r eq)
  qed
qed

lemma fromDecimalsNumber_double:
  "fromDecimalsNumber v d = Finite r \<Longrightarrow> representable r"
  by (auto simp: fromDecimalsNumber_def split: number.splits dest: representable_toDouble)

lemma js_add_commute: "js_add x y = js_add y x"
  by (cases x; cases y) (simp_all add: add.commute)

lemma js_add_zero_amount:
  assumes "x \<in> set (amounts es)"
  shows "js_add (Finite 0) x = x"
proof (cases x)
  case (Finite r)
  from assms have "\<exists>e :: returnValues. x = fromDecimalsNumber (bond e) 18"
    by (auto simp: amounts_def)
  then obtain e :: returnValues where "x = fromDecimalsNumber (bond e) 18" by blast
  with Finite have "fromDecimalsNumber (bond e) 18 = Finite r" by simp
  then have "representable r" by (rule fromDecimalsNumber_double)
  then show ?thesis by (simp add: Finite representable_def)
next
  case Infinity
  then show ?thesis by simp
qed

section \<open>What the accumulation loops compute\<close>

lemma accumulate_apply:
  "accumulate m k x k' =
     (if k' = k then Some (js_add (case m k of None \<Rightarrow> Finite 0 | Some v \<Rightarrow> v) x) else m k')"
  by (simp add: accumulate_def falsy_def split: option.splits)

lemma add_answer_bond_apply:
  "add_answer_bond e m k =
     (if k = answer e
      then Some (js_add (case m k of None \<Rightarrow> Finite 0 | Some v \<Rightarrow> v) (fromDecimalsNumber (bond e) 18))
      else m k)"
  by (simp add: add_answer_bond_def accumulate_apply)

lemma fold_add_answer_bond:
  "fold add_answer_bond es m k =
     (if filter (\<lambda>e. answer e = k) es = [] then m k
      else Some (fold (\<lambda>x acc. js_add acc x) (amounts (filter (\<lambda>e. answer e = k) es))
                  (case m k of None \<Rightarrow> Finite 0 | Some v \<Rightarrow> v)))"
proof (induction es arbitrary: m)
  case Nil
  then show ?case by simp
next
  case (Cons e es)
  show ?case
    by (simp only: fold_simps comp_apply Cons.IH) (auto simp: add_answer_bond_apply amounts_def)
qed

lemma bondsByAnswer_lookup:
  "bondsByAnswer es k =
     (if filter (\<lambda>e. answer e = k) es = [] then None
      else Some (js_sum (amounts (filter (\<lambda>e. answer e = k) es))))"
  by (simp add: bondsByAnswer_def fold_add_answer_bond js_sum_def)

lemma add_my_bond_apply:
  "add_my_bond e m q =
     (if q = question_id e
      then Some \<lparr> total = js_add (case m q of None \<Rightarrow> Finite 0 | Some en \<Rightarrow> total en)
                            (fromDecimalsNumber (bond e) 18),
                  by_answer = add_answer_bond e (case m q of None \<Rightarrow> Map.empty | Some en \<Rightarrow> by_answer en) \<rparr>
      else m q)"
  by (simp add: add_my_bond_def add_answer_bond_def Let_def split: option.splits)

lemma fold_add_my_bond:
  "fold add_my_bond es m q =
     (if filter (\<lambda>e. question_id e = q) es = [] then m q
      else Some \<lparr> total = fold (\<lambda>x acc. js_add acc x) (amounts (filter (\<lambda>e. question_id e = q) es))
                    (case m q of None \<Rightarrow> Finite 0 | Some en \<Rightarrow> total en),
                  by_answer = fold add_answer_bond (filter (\<lambda>e. question_id e = q) es)
                    (case m q of None \<Rightarrow> Map.empty | Some en \<Rightarrow> by_answer en) \<rparr>)"
proof (induction es arbitrary: m)
  case Nil
  then show ?case by simp
next
  case (Cons e es)
  show ?case
    by (simp only: fold_simps comp_apply Cons.IH) (auto simp: add_my_bond_apply amounts_def)
qed

lemma myBonds_lookup:
  "myBonds es q =
     (if filter (\<lambda>e. question_id e = q) es = [] then None
      else Some \<lparr> total = js_sum (amounts (filter (\<lambda>e. question_id e = q) es)),
                  by_answer = bondsByAnswer (filter (\<lambda>e. question_id e = q) es) \<rparr>)"
  by (simp add: myBonds_def fold_add_my_bond js_sum_def bondsByAnswer_def)

lemma dom_bondsByAnswer: "dom (bondsByAnswer es) = answer ` set es"
proof -
  have "(bondsByAnswer es k \<noteq> None) = (k \<in> answer ` set es)" for k
    by (auto simp: bondsByAnswer_lookup filter_empty_conv)
  then show ?thesis by (auto simp: dom_def)
qed

lemma sum_by_answer:
  assumes "finite A" and "answer ` set es \<subseteq> A"
  shows "(\<Sum>a\<in>A. sum_list (map f (filter (\<lambda>e. answer e = a) es))) = sum_list (map f es)"
  using assms(2)
proof (induction es)
  case Nil
  then show ?case by simp
next
  case (Cons e es)
  have "(\<Sum>a\<in>A. sum_list (map f (filter (\<lambda>x. answer x = a) (e # es))))
      = (\<Sum>a\<in>A. (if a = answer e then f e else 0) + sum_list (map f (filter (\<lambda>x. answer x = a) es)))"
    by (rule sum.cong) auto
  also have "\<dots> = (\<Sum>a\<in>A. if a = answer e then f e else 0)
      + (\<Sum>a\<in>A. sum_list (map f (filter (\<lambda>x. answer x = a) es)))"
    by (rule sum.distrib)
  also have "(\<Sum>a\<in>A. if a = answer e then f e else 0) = f e"
    using assms(1) Cons.prems by simp
  also have "(\<Sum>a\<in>A. sum_list (map f (filter (\<lambda>x. answer x = a) es))) = sum_list (map f es)"
    using Cons by simp
  finally show ?case by simp
qed

section \<open>Sums and the order of addition\<close>

lemma fold_js_add_exact:
  "exact_from a xs \<Longrightarrow>
     fold (\<lambda>x acc. js_add acc x) xs (Finite a) = Finite (a + sum_list (map value_of xs))"
proof (induction a xs rule: exact_from.induct)
  case (1 acc)
  then show ?case by simp
next
  case (2 acc r xs)
  then show ?case by (simp add: representable_def add.assoc)
next
  case (3 acc xs)
  then show ?case by simp
qed

lemma js_sum_exact:
  "adds_exactly xs \<Longrightarrow> js_sum xs = Finite (sum_list (map value_of xs))"
  using fold_js_add_exact [of 0 xs] by (simp add: adds_exactly_def js_sum_def)

lemma sum_list_value_of_perm:
  assumes "mset xs' = mset xs"
  shows "sum_list (map value_of xs') = sum_list (map value_of xs)"
proof -
  have "mset (map value_of xs') = mset (map value_of xs)" using assms by simp
  then show ?thesis by (metis sum_mset_sum_list)
qed

lemma mset_eq_single: "mset xs' = mset [x] \<Longrightarrow> xs' = [x]"
  by simp

lemma pair_mset:
  "add_mset a {#b#} = add_mset x {#y#} \<Longrightarrow> (a = x \<and> b = y) \<or> (a = y \<and> b = x)"
  by (metis add_eq_conv_ex add_mset_eq_single)

lemma mset_eq_pair:
  assumes "mset xs' = mset [x, y]"
  shows "xs' = [x, y] \<or> xs' = [y, x]"
proof -
  from assms have "length xs' = length [x, y]" by (rule mset_eq_length)
  then obtain a b where xs': "xs' = [a, b]"
    by (auto simp: length_Suc_conv)
  with assms have "add_mset a {#b#} = add_mset x {#y#}" by simp
  then have "(a = x \<and> b = y) \<or> (a = y \<and> b = x)" by (rule pair_mset)
  with xs' show ?thesis by auto
qed

lemma dom_single_ran: "dom m = {a} \<Longrightarrow> ran m = {the (m a)}"
  by (metis domD dom_eq_singleton_conv option.sel ranI ran_empty ran_map_upd
    singletonD singletonI)

lemma js_sum_order_safe:
  assumes perm: "mset xs' = mset xs" and safe: "order_safe xs' xs"
    and zero: "\<And>x. x \<in> set xs \<Longrightarrow> js_add (Finite 0) x = x"
  shows "js_sum xs' = js_sum xs"
proof -
  consider "xs' = xs" | "length xs \<le> 2" | "adds_exactly xs" "adds_exactly xs'"
    using safe by (auto simp: order_safe_def)
  then show ?thesis
  proof cases
    case 1
    then show ?thesis by simp
  next
    case 2
    then consider "xs = []" | x where "xs = [x]" | x y where "xs = [x, y]"
      by (cases xs; cases "tl xs"; cases "tl (tl xs)") auto
    then show ?thesis
    proof cases
      case 1
      with perm show ?thesis by simp
    next
      case 2
      with perm show ?thesis by simp
    next
      case 3
      with perm have "xs' = [x, y] \<or> xs' = [y, x]" by (simp only: mset_eq_pair)
      moreover have "js_sum [x, y] = js_add x y" "js_sum [y, x] = js_add y x"
        using zero [of x] zero [of y] by (simp_all add: js_sum_def 3)
      ultimately show ?thesis by (auto simp: 3 js_add_commute [of x y])
    qed
  next
    case 3
    then show ?thesis
      by (simp add: js_sum_exact sum_list_value_of_perm [OF perm])
  qed
qed

lemma filter_empty_perm:
  assumes "mset es' = mset es"
  shows "(filter P es' = []) = (filter P es = [])"
proof -
  have "mset (filter P es') = mset (filter P es)" using assms by simp
  then show ?thesis by (metis mset_zero_iff)
qed

lemma js_sum_filter_perm:
  assumes "mset es' = mset es"
    and "order_safe (amounts (filter P es')) (amounts (filter P es))"
  shows "js_sum (amounts (filter P es')) = js_sum (amounts (filter P es))"
proof (rule js_sum_order_safe)
  show "mset (amounts (filter P es')) = mset (amounts (filter P es))"
    using assms(1) by (simp add: amounts_def)
  show "order_safe (amounts (filter P es')) (amounts (filter P es))" by (rule assms(2))
  show "js_add (Finite 0) x = x" if "x \<in> set (amounts (filter P es))" for x
    using that by (rule js_add_zero_amount)
qed

lemma bondsByAnswer_perm:
  assumes "mset es' = mset es"
    and "\<And>a. order_safe (amounts (filter (\<lambda>e. answer e = a) es'))
                (amounts (filter (\<lambda>e. answer e = a) es))"
  shows "bondsByAnswer es' = bondsByAnswer es"
proof
  fix k
  show "bondsByAnswer es' k = bondsByAnswer es k"
    using js_sum_filter_perm [OF assms(1) assms(2) [of k]] filter_empty_perm [OF assms(1)]
    by (simp add: bondsByAnswer_lookup)
qed

lemma myBonds_perm:
  assumes "mset es' = mset es"
    and "\<And>q. order_safe (amounts (filter (\<lambda>e. question_id e = q) es'))
                (amounts (filter (\<lambda>e. question_id e = q) es))"
    and "\<And>q a. order_safe (amounts (filter (\<lambda>e. question_id e = q \<and> answer e = a) es'))
                  (amounts (filter (\<lambda>e. question_id e = q \<and> answer e = a) es))"
  shows "myBonds es' = myBonds es"
proof
  fix q
  let ?Q = "\<lambda>e. question_id e = q"
  have "bondsByAnswer (filter ?Q es') = bondsByAnswer (filter ?Q es)"
  proof
    fix k
    show "bondsByAnswer (filter ?Q es') k = bondsByAnswer (filter ?Q es) k"
      using js_sum_filter_perm [OF assms(1) assms(3) [of q k]]
        filter_empty_perm [OF assms(1), of "\<lambda>e. ?Q e \<and> answer e = k"]
      by (simp add: bondsByAnswer_lookup)
  qed
  then show "myBonds es' q = myBonds es q"
    using js_sum_filter_perm [OF assms(1) assms(2) [of q]] filter_empty_perm [OF assms(1), of ?Q]
    by (simp add: myBonds_lookup)
qed

lemma myBonds_total_sum:
  assumes mb: "myBonds events q = Some entry"
    and cond: "(adds_exactly (amounts (filter (\<lambda>e. question_id e = q) events))
          \<and> (\<forall>a. adds_exactly (amounts (filter (\<lambda>e. question_id e = q \<and> answer e = a) events))))
         \<or> (\<exists>a. dom (by_answer entry) = {a})"
  shows "finite (dom (by_answer entry))" and "total entry = sum_of_amounts (by_answer entry)"
proof -
  let ?es = "filter (\<lambda>e. question_id e = q) events"
  let ?f = "\<lambda>e. value_of (fromDecimalsNumber (bond e) 18)"
  from mb have entry: "entry = \<lparr> total = js_sum (amounts ?es), by_answer = bondsByAnswer ?es \<rparr>"
    by (simp add: myBonds_lookup split: if_splits)
  have dom: "dom (by_answer entry) = answer ` set ?es"
    by (simp add: entry dom_bondsByAnswer)
  show "finite (dom (by_answer entry))" by (simp add: dom)
  have look: "bondsByAnswer ?es a
      = Some (js_sum (amounts (filter (\<lambda>e. question_id e = q \<and> answer e = a) events)))"
    if "a \<in> answer ` set ?es" for a
  proof -
    have "filter (\<lambda>e. answer e = a) ?es \<noteq> []"
      using that by (auto simp: filter_empty_conv)
    then show ?thesis by (simp add: bondsByAnswer_lookup)
  qed
  from cond show "total entry = sum_of_amounts (by_answer entry)"
  proof
    assume ex: "adds_exactly (amounts ?es)
          \<and> (\<forall>a. adds_exactly (amounts (filter (\<lambda>e. question_id e = q \<and> answer e = a) events)))"
    have tot: "js_sum (amounts ?es) = Finite (sum_list (map ?f ?es))"
      using ex by (simp add: js_sum_exact amounts_def comp_def)
    have ans: "bondsByAnswer ?es a
        = Some (Finite (sum_list (map ?f (filter (\<lambda>e. answer e = a) ?es))))"
      if "a \<in> answer ` set ?es" for a
      using ex by (simp add: look [OF that] js_sum_exact amounts_def comp_def)
    have fin: "Infinity \<notin> ran (bondsByAnswer ?es)"
    proof
      assume "Infinity \<in> ran (bondsByAnswer ?es)"
      then obtain a where a: "bondsByAnswer ?es a = Some Infinity" by (auto simp: ran_def)
      then have "a \<in> dom (bondsByAnswer ?es)" by blast
      then have "a \<in> answer ` set ?es" by (simp only: dom_bondsByAnswer)
      from ans [OF this] a show False by simp
    qed
    have "(\<Sum>a\<in>dom (bondsByAnswer ?es). value_of (the (bondsByAnswer ?es a)))
        = (\<Sum>a\<in>answer ` set ?es. sum_list (map ?f (filter (\<lambda>e. answer e = a) ?es)))"
      unfolding dom_bondsByAnswer by (rule sum.cong) (simp_all add: ans)
    also have "\<dots> = sum_list (map ?f ?es)"
      by (rule sum_by_answer) simp_all
    finally show ?thesis by (simp add: entry tot sum_of_amounts_def fin)
  next
    assume "\<exists>a. dom (by_answer entry) = {a}"
    then obtain a where a: "dom (by_answer entry) = {a}" by blast
    then have img: "answer ` set ?es = {a}" by (simp only: dom)
    have all: "answer e = a" if "e \<in> set ?es" for e
      using img that by blast
    have "filter (\<lambda>e. answer e = a) ?es = ?es"
      by (rule filter_True) (use all in blast)
    then have fa: "filter (\<lambda>e. question_id e = q \<and> answer e = a) events = ?es"
      by simp
    have "a \<in> answer ` set ?es" using img by simp
    from look [OF this] have val: "by_answer entry a = Some (total entry)"
      by (simp add: entry fa)
    from dom_single_ran [OF a] val have ran: "ran (by_answer entry) = {total entry}" by simp
    show ?thesis
      by (cases "total entry") (simp_all add: sum_of_amounts_def ran a val)
  qed
qed

section \<open>Worked roundings\<close>

text \<open>
  The conversions and additions that the examples below need, each with the binade, the
  exponent of the last place and the rounded significand that \<open>toDouble\<close> arrives at.
  \<open>3602879701896397 / 36028797018963968\<close> is the double written \<open>0.1\<close>,
  \<open>3602879701896397 / 18014398509481984\<close> is \<open>0.2\<close>,
  \<open>5404319552844595 / 18014398509481984\<close> is \<open>0.3\<close>,
  \<open>1351079888211149 / 4503599627370496\<close> is \<open>0.30000000000000004\<close>,
  \<open>3602879701896397 / 9007199254740992\<close> is \<open>0.4\<close>,
  \<open>5404319552844595 / 9007199254740992\<close> is \<open>0.6\<close> and
  \<open>1351079888211149 / 2251799813685248\<close> is \<open>0.6000000000000001\<close>.
\<close>

lemma conv_1e17_raw: "toDouble (of_nat 100000000000000000) = Finite 100000000000000000"
proof -
  have "toDouble (of_nat 100000000000000000) = Finite (of_int 6250000000000000 * pow2 4)"
  proof (rule toDouble_eqI [where b = "56"])
    show "roundTiesToEven ((of_nat 100000000000000000) / pow2 4) = 6250000000000000"
      by (rule roundTiesToEven_near) (simp_all add: pow2_def)
  qed (simp_all add: pow2_def)
  then show ?thesis by (simp add: pow2_def)
qed

lemma conv_1e17_scaled: "toDouble (100000000000000000 / 10 ^ 18) = Finite (3602879701896397 / 36028797018963968)"
proof -
  have "toDouble (100000000000000000 / 10 ^ 18) = Finite (of_int 7205759403792794 * pow2 (- 56))"
  proof (rule toDouble_eqI [where b = "- 4"])
    show "roundTiesToEven ((100000000000000000 / 10 ^ 18) / pow2 (- 56)) = 7205759403792794"
      by (rule roundTiesToEven_near) (simp_all add: pow2_def)
  qed (simp_all add: pow2_def)
  then show ?thesis by (simp add: pow2_def)
qed

lemma conv_1e17: "fromDecimalsNumber 100000000000000000 18 = Finite (3602879701896397 / 36028797018963968)"
  unfolding fromDecimalsNumber_def conv_1e17_raw number.case conv_1e17_scaled ..

lemma conv_2e17_raw: "toDouble (of_nat 200000000000000000) = Finite 200000000000000000"
proof -
  have "toDouble (of_nat 200000000000000000) = Finite (of_int 6250000000000000 * pow2 5)"
  proof (rule toDouble_eqI [where b = "57"])
    show "roundTiesToEven ((of_nat 200000000000000000) / pow2 5) = 6250000000000000"
      by (rule roundTiesToEven_near) (simp_all add: pow2_def)
  qed (simp_all add: pow2_def)
  then show ?thesis by (simp add: pow2_def)
qed

lemma conv_2e17_scaled: "toDouble (200000000000000000 / 10 ^ 18) = Finite (3602879701896397 / 18014398509481984)"
proof -
  have "toDouble (200000000000000000 / 10 ^ 18) = Finite (of_int 7205759403792794 * pow2 (- 55))"
  proof (rule toDouble_eqI [where b = "- 3"])
    show "roundTiesToEven ((200000000000000000 / 10 ^ 18) / pow2 (- 55)) = 7205759403792794"
      by (rule roundTiesToEven_near) (simp_all add: pow2_def)
  qed (simp_all add: pow2_def)
  then show ?thesis by (simp add: pow2_def)
qed

lemma conv_2e17: "fromDecimalsNumber 200000000000000000 18 = Finite (3602879701896397 / 18014398509481984)"
  unfolding fromDecimalsNumber_def conv_2e17_raw number.case conv_2e17_scaled ..

lemma conv_3e17_raw: "toDouble (of_nat 300000000000000000) = Finite 300000000000000000"
proof -
  have "toDouble (of_nat 300000000000000000) = Finite (of_int 4687500000000000 * pow2 6)"
  proof (rule toDouble_eqI [where b = "58"])
    show "roundTiesToEven ((of_nat 300000000000000000) / pow2 6) = 4687500000000000"
      by (rule roundTiesToEven_near) (simp_all add: pow2_def)
  qed (simp_all add: pow2_def)
  then show ?thesis by (simp add: pow2_def)
qed

lemma conv_3e17_scaled: "toDouble (300000000000000000 / 10 ^ 18) = Finite (5404319552844595 / 18014398509481984)"
proof -
  have "toDouble (300000000000000000 / 10 ^ 18) = Finite (of_int 5404319552844595 * pow2 (- 54))"
  proof (rule toDouble_eqI [where b = "- 2"])
    show "roundTiesToEven ((300000000000000000 / 10 ^ 18) / pow2 (- 54)) = 5404319552844595"
      by (rule roundTiesToEven_near) (simp_all add: pow2_def)
  qed (simp_all add: pow2_def)
  then show ?thesis by (simp add: pow2_def)
qed

lemma conv_3e17: "fromDecimalsNumber 300000000000000000 18 = Finite (5404319552844595 / 18014398509481984)"
  unfolding fromDecimalsNumber_def conv_3e17_raw number.case conv_3e17_scaled ..

lemma add_0_d1_sum: "toDouble (0 + 3602879701896397 / 36028797018963968) = Finite (3602879701896397 / 36028797018963968)"
proof -
  have "toDouble (0 + 3602879701896397 / 36028797018963968) = Finite (of_int 7205759403792794 * pow2 (- 56))"
  proof (rule toDouble_eqI [where b = "- 4"])
    show "roundTiesToEven ((0 + 3602879701896397 / 36028797018963968) / pow2 (- 56)) = 7205759403792794"
      by (rule roundTiesToEven_near) (simp_all add: pow2_def)
  qed (simp_all add: pow2_def)
  then show ?thesis by (simp add: pow2_def)
qed

lemma add_0_d1: "js_add (Finite 0) (Finite (3602879701896397 / 36028797018963968)) = Finite (3602879701896397 / 36028797018963968)"
  unfolding js_add.simps add_0_d1_sum ..

lemma add_0_d2_sum: "toDouble (0 + 3602879701896397 / 18014398509481984) = Finite (3602879701896397 / 18014398509481984)"
proof -
  have "toDouble (0 + 3602879701896397 / 18014398509481984) = Finite (of_int 7205759403792794 * pow2 (- 55))"
  proof (rule toDouble_eqI [where b = "- 3"])
    show "roundTiesToEven ((0 + 3602879701896397 / 18014398509481984) / pow2 (- 55)) = 7205759403792794"
      by (rule roundTiesToEven_near) (simp_all add: pow2_def)
  qed (simp_all add: pow2_def)
  then show ?thesis by (simp add: pow2_def)
qed

lemma add_0_d2: "js_add (Finite 0) (Finite (3602879701896397 / 18014398509481984)) = Finite (3602879701896397 / 18014398509481984)"
  unfolding js_add.simps add_0_d2_sum ..

lemma add_0_d3_sum: "toDouble (0 + 5404319552844595 / 18014398509481984) = Finite (5404319552844595 / 18014398509481984)"
proof -
  have "toDouble (0 + 5404319552844595 / 18014398509481984) = Finite (of_int 5404319552844595 * pow2 (- 54))"
  proof (rule toDouble_eqI [where b = "- 2"])
    show "roundTiesToEven ((0 + 5404319552844595 / 18014398509481984) / pow2 (- 54)) = 5404319552844595"
      by (rule roundTiesToEven_near) (simp_all add: pow2_def)
  qed (simp_all add: pow2_def)
  then show ?thesis by (simp add: pow2_def)
qed

lemma add_0_d3: "js_add (Finite 0) (Finite (5404319552844595 / 18014398509481984)) = Finite (5404319552844595 / 18014398509481984)"
  unfolding js_add.simps add_0_d3_sum ..

lemma add_d1_d2_sum: "toDouble (3602879701896397 / 36028797018963968 + 3602879701896397 / 18014398509481984) = Finite (1351079888211149 / 4503599627370496)"
proof -
  have "toDouble (3602879701896397 / 36028797018963968 + 3602879701896397 / 18014398509481984) = Finite (of_int 5404319552844596 * pow2 (- 54))"
  proof (rule toDouble_eqI [where b = "- 2"])
    show "roundTiesToEven ((3602879701896397 / 36028797018963968 + 3602879701896397 / 18014398509481984) / pow2 (- 54)) = 5404319552844596"
      by (rule roundTiesToEven_tie_up) (simp_all add: pow2_def)
  qed (simp_all add: pow2_def)
  then show ?thesis by (simp add: pow2_def)
qed

lemma add_d1_d2: "js_add (Finite (3602879701896397 / 36028797018963968)) (Finite (3602879701896397 / 18014398509481984)) = Finite (1351079888211149 / 4503599627370496)"
  unfolding js_add.simps add_d1_d2_sum ..

lemma add_d12_d3_sum: "toDouble (1351079888211149 / 4503599627370496 + 5404319552844595 / 18014398509481984) = Finite (1351079888211149 / 2251799813685248)"
proof -
  have "toDouble (1351079888211149 / 4503599627370496 + 5404319552844595 / 18014398509481984) = Finite (of_int 5404319552844596 * pow2 (- 53))"
  proof (rule toDouble_eqI [where b = "- 1"])
    show "roundTiesToEven ((1351079888211149 / 4503599627370496 + 5404319552844595 / 18014398509481984) / pow2 (- 53)) = 5404319552844596"
      by (rule roundTiesToEven_tie_up) (simp_all add: pow2_def)
  qed (simp_all add: pow2_def)
  then show ?thesis by (simp add: pow2_def)
qed

lemma add_d12_d3: "js_add (Finite (1351079888211149 / 4503599627370496)) (Finite (5404319552844595 / 18014398509481984)) = Finite (1351079888211149 / 2251799813685248)"
  unfolding js_add.simps add_d12_d3_sum ..

lemma add_d3_d2_sum: "toDouble (5404319552844595 / 18014398509481984 + 3602879701896397 / 18014398509481984) = Finite (1 / 2)"
proof -
  have "toDouble (5404319552844595 / 18014398509481984 + 3602879701896397 / 18014398509481984) = Finite (of_int 4503599627370496 * pow2 (- 53))"
  proof (rule toDouble_eqI [where b = "- 1"])
    show "roundTiesToEven ((5404319552844595 / 18014398509481984 + 3602879701896397 / 18014398509481984) / pow2 (- 53)) = 4503599627370496"
      by (rule roundTiesToEven_near) (simp_all add: pow2_def)
  qed (simp_all add: pow2_def)
  then show ?thesis by (simp add: pow2_def)
qed

lemma add_d3_d2: "js_add (Finite (5404319552844595 / 18014398509481984)) (Finite (3602879701896397 / 18014398509481984)) = Finite (1 / 2)"
  unfolding js_add.simps add_d3_d2_sum ..

lemma add_d32_d1_sum: "toDouble (1 / 2 + 3602879701896397 / 36028797018963968) = Finite (5404319552844595 / 9007199254740992)"
proof -
  have "toDouble (1 / 2 + 3602879701896397 / 36028797018963968) = Finite (of_int 5404319552844595 * pow2 (- 53))"
  proof (rule toDouble_eqI [where b = "- 1"])
    show "roundTiesToEven ((1 / 2 + 3602879701896397 / 36028797018963968) / pow2 (- 53)) = 5404319552844595"
      by (rule roundTiesToEven_near) (simp_all add: pow2_def)
  qed (simp_all add: pow2_def)
  then show ?thesis by (simp add: pow2_def)
qed

lemma add_d32_d1: "js_add (Finite (1 / 2)) (Finite (3602879701896397 / 36028797018963968)) = Finite (5404319552844595 / 9007199254740992)"
  unfolding js_add.simps add_d32_d1_sum ..

lemma add_d3_d1_sum: "toDouble (5404319552844595 / 18014398509481984 + 3602879701896397 / 36028797018963968) = Finite (3602879701896397 / 9007199254740992)"
proof -
  have "toDouble (5404319552844595 / 18014398509481984 + 3602879701896397 / 36028797018963968) = Finite (of_int 7205759403792794 * pow2 (- 54))"
  proof (rule toDouble_eqI [where b = "- 2"])
    show "roundTiesToEven ((5404319552844595 / 18014398509481984 + 3602879701896397 / 36028797018963968) / pow2 (- 54)) = 7205759403792794"
      by (rule roundTiesToEven_tie_up) (simp_all add: pow2_def)
  qed (simp_all add: pow2_def)
  then show ?thesis by (simp add: pow2_def)
qed

lemma add_d3_d1: "js_add (Finite (5404319552844595 / 18014398509481984)) (Finite (3602879701896397 / 36028797018963968)) = Finite (3602879701896397 / 9007199254740992)"
  unfolding js_add.simps add_d3_d1_sum ..

lemma add_d31_d2_sum: "toDouble (3602879701896397 / 9007199254740992 + 3602879701896397 / 18014398509481984) = Finite (1351079888211149 / 2251799813685248)"
proof -
  have "toDouble (3602879701896397 / 9007199254740992 + 3602879701896397 / 18014398509481984) = Finite (of_int 5404319552844596 * pow2 (- 53))"
  proof (rule toDouble_eqI [where b = "- 1"])
    show "roundTiesToEven ((3602879701896397 / 9007199254740992 + 3602879701896397 / 18014398509481984) / pow2 (- 53)) = 5404319552844596"
      by (rule roundTiesToEven_tie_up) (simp_all add: pow2_def)
  qed (simp_all add: pow2_def)
  then show ?thesis by (simp add: pow2_def)
qed

lemma add_d31_d2: "js_add (Finite (3602879701896397 / 9007199254740992)) (Finite (3602879701896397 / 18014398509481984)) = Finite (1351079888211149 / 2251799813685248)"
  unfolding js_add.simps add_d31_d2_sum ..


lemma conv_10e18_raw: "toDouble (of_nat 10000000000000000000) = Finite 10000000000000000000"
proof -
  have "toDouble (of_nat 10000000000000000000) = Finite (of_int 4882812500000000 * pow2 11)"
  proof (rule toDouble_eqI [where b = "63"])
    show "roundTiesToEven ((of_nat 10000000000000000000) / pow2 11) = 4882812500000000"
      by (rule roundTiesToEven_near) (simp_all add: pow2_def)
  qed (simp_all add: pow2_def)
  then show ?thesis by (simp add: pow2_def)
qed

lemma conv_10e18_scaled: "toDouble (10000000000000000000 / 10 ^ 18) = Finite 10"
proof -
  have "toDouble (10000000000000000000 / 10 ^ 18) = Finite (of_int 5629499534213120 * pow2 (- 49))"
  proof (rule toDouble_eqI [where b = "3"])
    show "roundTiesToEven ((10000000000000000000 / 10 ^ 18) / pow2 (- 49)) = 5629499534213120"
      by (rule roundTiesToEven_near) (simp_all add: pow2_def)
  qed (simp_all add: pow2_def)
  then show ?thesis by (simp add: pow2_def)
qed

lemma conv_10e18: "fromDecimalsNumber 10000000000000000000 18 = Finite 10"
  unfolding fromDecimalsNumber_def conv_10e18_raw number.case conv_10e18_scaled ..

lemma conv_5e18_raw: "toDouble (of_nat 5000000000000000000) = Finite 5000000000000000000"
proof -
  have "toDouble (of_nat 5000000000000000000) = Finite (of_int 4882812500000000 * pow2 10)"
  proof (rule toDouble_eqI [where b = "62"])
    show "roundTiesToEven ((of_nat 5000000000000000000) / pow2 10) = 4882812500000000"
      by (rule roundTiesToEven_near) (simp_all add: pow2_def)
  qed (simp_all add: pow2_def)
  then show ?thesis by (simp add: pow2_def)
qed

lemma conv_5e18_scaled: "toDouble (5000000000000000000 / 10 ^ 18) = Finite 5"
proof -
  have "toDouble (5000000000000000000 / 10 ^ 18) = Finite (of_int 5629499534213120 * pow2 (- 50))"
  proof (rule toDouble_eqI [where b = "2"])
    show "roundTiesToEven ((5000000000000000000 / 10 ^ 18) / pow2 (- 50)) = 5629499534213120"
      by (rule roundTiesToEven_near) (simp_all add: pow2_def)
  qed (simp_all add: pow2_def)
  then show ?thesis by (simp add: pow2_def)
qed

lemma conv_5e18: "fromDecimalsNumber 5000000000000000000 18 = Finite 5"
  unfolding fromDecimalsNumber_def conv_5e18_raw number.case conv_5e18_scaled ..

lemma conv_3e18_raw: "toDouble (of_nat 3000000000000000000) = Finite 3000000000000000000"
proof -
  have "toDouble (of_nat 3000000000000000000) = Finite (of_int 5859375000000000 * pow2 9)"
  proof (rule toDouble_eqI [where b = "61"])
    show "roundTiesToEven ((of_nat 3000000000000000000) / pow2 9) = 5859375000000000"
      by (rule roundTiesToEven_near) (simp_all add: pow2_def)
  qed (simp_all add: pow2_def)
  then show ?thesis by (simp add: pow2_def)
qed

lemma conv_3e18_scaled: "toDouble (3000000000000000000 / 10 ^ 18) = Finite 3"
proof -
  have "toDouble (3000000000000000000 / 10 ^ 18) = Finite (of_int 6755399441055744 * pow2 (- 51))"
  proof (rule toDouble_eqI [where b = "1"])
    show "roundTiesToEven ((3000000000000000000 / 10 ^ 18) / pow2 (- 51)) = 6755399441055744"
      by (rule roundTiesToEven_near) (simp_all add: pow2_def)
  qed (simp_all add: pow2_def)
  then show ?thesis by (simp add: pow2_def)
qed

lemma conv_3e18: "fromDecimalsNumber 3000000000000000000 18 = Finite 3"
  unfolding fromDecimalsNumber_def conv_3e18_raw number.case conv_3e18_scaled ..

lemma conv_5_raw: "toDouble (of_nat 5) = Finite 5"
proof -
  have "toDouble (of_nat 5) = Finite (of_int 5629499534213120 * pow2 (- 50))"
  proof (rule toDouble_eqI [where b = "2"])
    show "roundTiesToEven ((of_nat 5) / pow2 (- 50)) = 5629499534213120"
      by (rule roundTiesToEven_near) (simp_all add: pow2_def)
  qed (simp_all add: pow2_def)
  then show ?thesis by (simp add: pow2_def)
qed

lemma conv_5_scaled: "toDouble (5 / 10 ^ 18) = Finite (6490371073168535 / 1298074214633706907132624082305024)"
proof -
  have "toDouble (5 / 10 ^ 18) = Finite (of_int 6490371073168535 * pow2 (- 110))"
  proof (rule toDouble_eqI [where b = "- 58"])
    show "roundTiesToEven ((5 / 10 ^ 18) / pow2 (- 110)) = 6490371073168535"
      by (rule roundTiesToEven_near) (simp_all add: pow2_def)
  qed (simp_all add: pow2_def)
  then show ?thesis by (simp add: pow2_def)
qed

lemma conv_5: "fromDecimalsNumber 5 18 = Finite (6490371073168535 / 1298074214633706907132624082305024)"
  unfolding fromDecimalsNumber_def conv_5_raw number.case conv_5_scaled ..

lemma add_0_tiny5_sum: "toDouble (0 + 6490371073168535 / 1298074214633706907132624082305024) = Finite (6490371073168535 / 1298074214633706907132624082305024)"
proof -
  have "toDouble (0 + 6490371073168535 / 1298074214633706907132624082305024) = Finite (of_int 6490371073168535 * pow2 (- 110))"
  proof (rule toDouble_eqI [where b = "- 58"])
    show "roundTiesToEven ((0 + 6490371073168535 / 1298074214633706907132624082305024) / pow2 (- 110)) = 6490371073168535"
      by (rule roundTiesToEven_near) (simp_all add: pow2_def)
  qed (simp_all add: pow2_def)
  then show ?thesis by (simp add: pow2_def)
qed

lemma add_0_tiny5: "js_add (Finite 0) (Finite (6490371073168535 / 1298074214633706907132624082305024)) = Finite (6490371073168535 / 1298074214633706907132624082305024)"
  unfolding js_add.simps add_0_tiny5_sum ..

lemma add_0_10_sum: "toDouble (0 + 10) = Finite 10"
proof -
  have "toDouble (0 + 10) = Finite (of_int 5629499534213120 * pow2 (- 49))"
  proof (rule toDouble_eqI [where b = "3"])
    show "roundTiesToEven ((0 + 10) / pow2 (- 49)) = 5629499534213120"
      by (rule roundTiesToEven_near) (simp_all add: pow2_def)
  qed (simp_all add: pow2_def)
  then show ?thesis by (simp add: pow2_def)
qed

lemma add_0_10: "js_add (Finite 0) (Finite 10) = Finite 10"
  unfolding js_add.simps add_0_10_sum ..

lemma add_10_3_sum: "toDouble (10 + 3) = Finite 13"
proof -
  have "toDouble (10 + 3) = Finite (of_int 7318349394477056 * pow2 (- 49))"
  proof (rule toDouble_eqI [where b = "3"])
    show "roundTiesToEven ((10 + 3) / pow2 (- 49)) = 7318349394477056"
      by (rule roundTiesToEven_near) (simp_all add: pow2_def)
  qed (simp_all add: pow2_def)
  then show ?thesis by (simp add: pow2_def)
qed

lemma add_10_3: "js_add (Finite 10) (Finite 3) = Finite 13"
  unfolding js_add.simps add_10_3_sum ..

lemma add_0_5_sum: "toDouble (0 + 5) = Finite 5"
proof -
  have "toDouble (0 + 5) = Finite (of_int 5629499534213120 * pow2 (- 50))"
  proof (rule toDouble_eqI [where b = "2"])
    show "roundTiesToEven ((0 + 5) / pow2 (- 50)) = 5629499534213120"
      by (rule roundTiesToEven_near) (simp_all add: pow2_def)
  qed (simp_all add: pow2_def)
  then show ?thesis by (simp add: pow2_def)
qed

lemma add_0_5: "js_add (Finite 0) (Finite 5) = Finite 5"
  unfolding js_add.simps add_0_5_sum ..

lemma add_10_5_sum: "toDouble (10 + 5) = Finite 15"
proof -
  have "toDouble (10 + 5) = Finite (of_int 8444249301319680 * pow2 (- 49))"
  proof (rule toDouble_eqI [where b = "3"])
    show "roundTiesToEven ((10 + 5) / pow2 (- 49)) = 8444249301319680"
      by (rule roundTiesToEven_near) (simp_all add: pow2_def)
  qed (simp_all add: pow2_def)
  then show ?thesis by (simp add: pow2_def)
qed

lemma add_10_5: "js_add (Finite 10) (Finite 5) = Finite 15"
  unfolding js_add.simps add_10_5_sum ..

lemma add_15_3_sum: "toDouble (15 + 3) = Finite 18"
proof -
  have "toDouble (15 + 3) = Finite (of_int 5066549580791808 * pow2 (- 48))"
  proof (rule toDouble_eqI [where b = "4"])
    show "roundTiesToEven ((15 + 3) / pow2 (- 48)) = 5066549580791808"
      by (rule roundTiesToEven_near) (simp_all add: pow2_def)
  qed (simp_all add: pow2_def)
  then show ?thesis by (simp add: pow2_def)
qed

lemma add_15_3: "js_add (Finite 15) (Finite 3) = Finite 18"
  unfolding js_add.simps add_15_3_sum ..

lemmas whole_evals = conv_10e18 conv_5e18 conv_3e18 add_0_10 add_10_3 add_0_5 add_10_5 add_15_3

lemmas tenth_evals = conv_1e17 conv_2e17 conv_3e17 add_0_d1 add_0_d2 add_0_d3
  add_d1_d2 add_d12_d3 add_d3_d2 add_d32_d1 add_d3_d1 add_d31_d2

section \<open>The worked example\<close>

lemma bondsByAnswer_whole:
  "bondsByAnswer (three_events 10000000000000000000 5000000000000000000 3000000000000000000)
     = [''1'' \<mapsto> Finite 13, ''2'' \<mapsto> Finite 5]"
  by (rule ext)
    (simp add: bondsByAnswer_lookup js_sum_def amounts_def three_events_def answer_event_def
      whole_evals del: js_add.simps)

lemma bondsByAnswer_whole_A:
  "bondsByAnswer (filter (\<lambda>e. user e = ''A'')
       (three_events 10000000000000000000 5000000000000000000 3000000000000000000))
     = [''1'' \<mapsto> Finite 13]"
  by (rule ext)
    (simp add: bondsByAnswer_lookup js_sum_def amounts_def three_events_def answer_event_def
      whole_evals del: js_add.simps)

lemma myBonds_whole_A:
  "myBonds (filter (\<lambda>e. user e = ''A'')
       (three_events 10000000000000000000 5000000000000000000 3000000000000000000))
     = [''Q1'' \<mapsto> \<lparr> total = Finite 13, by_answer = [''1'' \<mapsto> Finite 13] \<rparr>]"
proof
  fix q
  let ?E = "filter (\<lambda>e. user e = ''A'')
       (three_events 10000000000000000000 5000000000000000000 3000000000000000000)"
  have f: "filter (\<lambda>e. question_id e = ''Q1'') ?E = ?E"
    by (simp add: three_events_def answer_event_def)
  have t: "js_sum (amounts ?E) = Finite 13"
    by (simp add: amounts_def js_sum_def three_events_def answer_event_def whole_evals
        del: js_add.simps)
  show "myBonds ?E q
      = [''Q1'' \<mapsto> \<lparr> total = Finite 13, by_answer = [''1'' \<mapsto> Finite 13] \<rparr>] q"
  proof (cases "q = ''Q1''")
    case True
    have ne: "?E \<noteq> []" by (simp add: three_events_def answer_event_def)
    show ?thesis unfolding myBonds_lookup True f t bondsByAnswer_whole_A using ne by simp
  next
    case False
    then show ?thesis
      by (simp add: myBonds_lookup three_events_def answer_event_def)
  qed
qed

text \<open>
  C4, as the code has it. The events carry raw ledger amounts, so bonds of 10, 5 and 3
  tokens are \<open>10\<cdot>10\<^sup>1\<^sup>8\<close>, \<open>5\<cdot>10\<^sup>1\<^sup>8\<close> and \<open>3\<cdot>10\<^sup>1\<^sup>8\<close>. On these three events of \<open>Q1\<close> the
  loop of \<open>getQuestionBondsByAnswer\<close> yields the totals \<open>{1: 13, 2: 5}\<close>; on the events
  of user \<open>A\<close> among them it yields \<open>{1: 13}\<close>, and the loop of \<open>getMyBonds\<close> the entry
  with total \<open>13\<close> and \<open>{1: 13}\<close>; the claim chain has the hashes \<open>[h2, h1, nullHash]\<close>,
  the addresses \<open>[A, B, A]\<close>, the answers \<open>[1, 2, 1]\<close> and, as bonds, the raw amounts
  \<open>[3\<cdot>10\<^sup>1\<^sup>8, 5\<cdot>10\<^sup>1\<^sup>8, 10\<cdot>10\<^sup>1\<^sup>8]\<close>.
\<close>

theorem end_to_end_example:
  "bondsByAnswer (three_events 10000000000000000000 5000000000000000000 3000000000000000000)
     = [''1'' \<mapsto> Finite 13, ''2'' \<mapsto> Finite 5]
   \<and> bondsByAnswer (filter (\<lambda>e. user e = ''A'')
        (three_events 10000000000000000000 5000000000000000000 3000000000000000000))
     = [''1'' \<mapsto> Finite 13]
   \<and> myBonds (filter (\<lambda>e. user e = ''A'')
        (three_events 10000000000000000000 5000000000000000000 3000000000000000000))
     = [''Q1'' \<mapsto> \<lparr> total = Finite 13, by_answer = [''1'' \<mapsto> Finite 13] \<rparr>]
   \<and> claim_chain ''Q1''
        (three_events 10000000000000000000 5000000000000000000 3000000000000000000)
     = \<lparr> arg_question_id = ''Q1'',
         arg_history_hashes = [''h2'', ''h1'', nullHash],
         arg_addrs = [''A'', ''B'', ''A''],
         arg_bonds = [3000000000000000000, 5000000000000000000, 10000000000000000000],
         arg_answers = [''1'', ''2'', ''1''] \<rparr>"
proof -
  have "claim_chain ''Q1''
        (three_events 10000000000000000000 5000000000000000000 3000000000000000000)
     = \<lparr> arg_question_id = ''Q1'',
         arg_history_hashes = [''h2'', ''h1'', nullHash],
         arg_addrs = [''A'', ''B'', ''A''],
         arg_bonds = [3000000000000000000, 5000000000000000000, 10000000000000000000],
         arg_answers = [''1'', ''2'', ''1''] \<rparr>"
    by (simp add: claim_chain_def historyHashes_def addrs_def bonds_def answers_def
        three_events_def answer_event_def)
  with bondsByAnswer_whole bondsByAnswer_whole_A myBonds_whole_A show ?thesis by blast
qed

text \<open>
  C4 as stated fails. With the bonds \<open>10\<close>, \<open>5\<close>, \<open>3\<close> of the claim as the events' bond
  fields, the chain bonds are \<open>[3, 5, 10]\<close>, but aggregation scales every bond by
  \<open>10\<^sup>-\<^sup>1\<^sup>8\<close>: the total of answer \<open>2\<close> is the double nearest to \<open>5\<cdot>10\<^sup>-\<^sup>1\<^sup>8\<close>, and the totals
  are not \<open>{1: 13, 2: 5}\<close>.
\<close>

theorem end_to_end_example_counterexample:
  "bondsByAnswer (three_events 10 5 3) ''2''
       = Some (Finite (6490371073168535 / 1298074214633706907132624082305024))
   \<and> bondsByAnswer (three_events 10 5 3) \<noteq> [''1'' \<mapsto> Finite 13, ''2'' \<mapsto> Finite 5]
   \<and> arg_bonds (claim_chain ''Q1'' (three_events 10 5 3)) = [3, 5, 10]"
proof -
  let ?E = "three_events 10 5 3"
  have 2: "bondsByAnswer ?E ''2''
      = Some (Finite (6490371073168535 / 1298074214633706907132624082305024))"
    by (simp add: bondsByAnswer_lookup js_sum_def amounts_def three_events_def answer_event_def
        conv_5 add_0_tiny5 del: js_add.simps)
  have 3: "bondsByAnswer ?E \<noteq> [''1'' \<mapsto> Finite 13, ''2'' \<mapsto> Finite 5]"
  proof
    assume "bondsByAnswer ?E = [''1'' \<mapsto> Finite 13, ''2'' \<mapsto> Finite 5]"
    then have "bondsByAnswer ?E ''2'' = Some (Finite 5)" by simp
    with 2 show False by simp
  qed
  have 4: "arg_bonds (claim_chain ''Q1'' ?E) = [3, 5, 10]"
    by (simp add: claim_chain_def bonds_def three_events_def answer_event_def)
  from 2 3 4 show ?thesis by blast
qed

section \<open>Aggregation and the order of events\<close>

text \<open>
  C5, as the code has it. The accumulators are JavaScript Numbers and their addition
  rounds, so the order of three or more bonds on one key can show in the last bit of a
  total. Take an event sequence and a permutation of it. If for every answer id the
  converted bonds of the events with that answer come in the same order in both, or are
  at most two, or add exactly in both orders, then the loop of
  \<open>getQuestionBondsByAnswer\<close> yields the same per-answer totals for both. If the same
  holds for every question id and for every pair of a question id and an answer id,
  then the loop of \<open>getMyBonds\<close> yields the same entries for both. The sequence itself
  is such a permutation, so running a loop again on the same sequence gives the same
  result.
\<close>

theorem aggregation_order_independent:
  assumes "mset events' = mset events"
  shows "((\<forall>a. order_safe (amounts (filter (\<lambda>e. answer e = a) events'))
                          (amounts (filter (\<lambda>e. answer e = a) events)))
            \<longrightarrow> bondsByAnswer events' = bondsByAnswer events)
         \<and> ((\<forall>q. order_safe (amounts (filter (\<lambda>e. question_id e = q) events'))
                            (amounts (filter (\<lambda>e. question_id e = q) events)))
             \<and> (\<forall>q a. order_safe
                         (amounts (filter (\<lambda>e. question_id e = q \<and> answer e = a) events'))
                         (amounts (filter (\<lambda>e. question_id e = q \<and> answer e = a) events)))
            \<longrightarrow> myBonds events' = myBonds events)"
  using bondsByAnswer_perm [OF assms] myBonds_perm [OF assms] by blast

lemma adds_exactly_10_5_3: "adds_exactly [Finite 10, Finite 5, Finite 3]"
  by (simp add: adds_exactly_def representable_numeral)

lemma adds_exactly_3_5_10: "adds_exactly [Finite 3, Finite 5, Finite 10]"
  by (simp add: adds_exactly_def representable_numeral)

lemma amounts_same_answer_whole:
  "amounts (one_user_events ''1'' 10000000000000000000 5000000000000000000 3000000000000000000)
     = [Finite 10, Finite 5, Finite 3]"
  by (simp add: amounts_def one_user_events_def answer_event_def whole_evals)

theorem aggregation_order_independent_witness:
  "mset (rev (one_user_events ''1'' 10000000000000000000 5000000000000000000 3000000000000000000))
     = mset (one_user_events ''1'' 10000000000000000000 5000000000000000000 3000000000000000000)
   \<and> bondsByAnswer
        (rev (one_user_events ''1'' 10000000000000000000 5000000000000000000 3000000000000000000))
       = bondsByAnswer
           (one_user_events ''1'' 10000000000000000000 5000000000000000000 3000000000000000000)
   \<and> myBonds
        (rev (one_user_events ''1'' 10000000000000000000 5000000000000000000 3000000000000000000))
       = myBonds
           (one_user_events ''1'' 10000000000000000000 5000000000000000000 3000000000000000000)
   \<and> mset (rev (three_events 100000000000000000 200000000000000000 300000000000000000))
       = mset (three_events 100000000000000000 200000000000000000 300000000000000000)
   \<and> bondsByAnswer (rev (three_events 100000000000000000 200000000000000000 300000000000000000))
       = bondsByAnswer (three_events 100000000000000000 200000000000000000 300000000000000000)"
proof -
  let ?E = "one_user_events ''1'' 10000000000000000000 5000000000000000000 3000000000000000000"
  let ?T = "three_events 100000000000000000 200000000000000000 300000000000000000"
  have am: "amounts ?E = [Finite 10, Finite 5, Finite 3]" by (rule amounts_same_answer_whole)
  have amr: "amounts (rev ?E) = [Finite 3, Finite 5, Finite 10]"
    unfolding amounts_def rev_map [symmetric] am [unfolded amounts_def] by simp
  have whole: "order_safe (amounts (rev ?E)) (amounts ?E)"
    by (simp add: order_safe_def am amr adds_exactly_10_5_3 adds_exactly_3_5_10)
  have pE: "mset (rev ?E) = mset ?E" by simp
  have a: "order_safe (amounts (filter (\<lambda>e. answer e = a) (rev ?E)))
      (amounts (filter (\<lambda>e. answer e = a) ?E))" for a
  proof (cases "a = ''1''")
    case True
    have "filter (\<lambda>e. answer e = a) ?E = ?E"
      by (simp add: True one_user_events_def answer_event_def)
    moreover have "filter (\<lambda>e. answer e = a) (rev ?E) = rev ?E"
      by (simp add: True one_user_events_def answer_event_def)
    ultimately show ?thesis using whole by simp
  next
    case False
    then show ?thesis
      by (simp add: order_safe_def one_user_events_def answer_event_def amounts_def)
  qed
  have q: "order_safe (amounts (filter (\<lambda>e. question_id e = q) (rev ?E)))
      (amounts (filter (\<lambda>e. question_id e = q) ?E))" for q
  proof (cases "q = ''Q1''")
    case True
    have "filter (\<lambda>e. question_id e = q) ?E = ?E"
      by (simp add: True one_user_events_def answer_event_def)
    moreover have "filter (\<lambda>e. question_id e = q) (rev ?E) = rev ?E"
      by (simp add: True one_user_events_def answer_event_def)
    ultimately show ?thesis using whole by simp
  next
    case False
    then show ?thesis
      by (simp add: order_safe_def one_user_events_def answer_event_def amounts_def)
  qed
  have qa: "order_safe (amounts (filter (\<lambda>e. question_id e = q \<and> answer e = a) (rev ?E)))
      (amounts (filter (\<lambda>e. question_id e = q \<and> answer e = a) ?E))" for q a
  proof (cases "q = ''Q1'' \<and> a = ''1''")
    case True
    have "filter (\<lambda>e. question_id e = q \<and> answer e = a) ?E = ?E"
      by (simp add: True one_user_events_def answer_event_def)
    moreover have "filter (\<lambda>e. question_id e = q \<and> answer e = a) (rev ?E) = rev ?E"
      by (simp add: True one_user_events_def answer_event_def)
    ultimately show ?thesis using whole by simp
  next
    case False
    then show ?thesis
      by (auto simp add: order_safe_def one_user_events_def answer_event_def amounts_def)
  qed
  have pT: "mset (rev ?T) = mset ?T" by simp
  have t: "order_safe (amounts (filter (\<lambda>e. answer e = a) (rev ?T)))
      (amounts (filter (\<lambda>e. answer e = a) ?T))" for a
    by (auto simp add: order_safe_def three_events_def answer_event_def amounts_def)
  from aggregation_order_independent [OF pE] a q qa
  have "bondsByAnswer (rev ?E) = bondsByAnswer ?E" and "myBonds (rev ?E) = myBonds ?E"
    by blast+
  moreover from aggregation_order_independent [OF pT] t
  have "bondsByAnswer (rev ?T) = bondsByAnswer ?T" by blast
  ultimately show ?thesis using pE pT by blast
qed

text \<open>
  C5 as stated fails: three bonds of \<open>0.1\<close>, \<open>0.2\<close> and \<open>0.3\<close> tokens on one answer total
  \<open>0.6000000000000001\<close> in ledger order and \<open>0.6\<close> in the reverse order, in the loop of
  \<open>getQuestionBondsByAnswer\<close> and in the grand total of the loop of \<open>getMyBonds\<close>.
\<close>

theorem aggregation_order_counterexample:
  "mset (rev (one_user_events ''1'' 100000000000000000 200000000000000000 300000000000000000))
     = mset (one_user_events ''1'' 100000000000000000 200000000000000000 300000000000000000)
   \<and> bondsByAnswer
        (one_user_events ''1'' 100000000000000000 200000000000000000 300000000000000000) ''1''
       = Some (Finite (1351079888211149 / 2251799813685248))
   \<and> bondsByAnswer
        (rev (one_user_events ''1'' 100000000000000000 200000000000000000 300000000000000000))
        ''1''
       = Some (Finite (5404319552844595 / 9007199254740992))
   \<and> bondsByAnswer
        (rev (one_user_events ''1'' 100000000000000000 200000000000000000 300000000000000000))
       \<noteq> bondsByAnswer
           (one_user_events ''1'' 100000000000000000 200000000000000000 300000000000000000)
   \<and> map_option total
        (myBonds
          (one_user_events ''1'' 100000000000000000 200000000000000000 300000000000000000)
          ''Q1'')
       = Some (Finite (1351079888211149 / 2251799813685248))
   \<and> map_option total
        (myBonds
          (rev (one_user_events ''1'' 100000000000000000 200000000000000000 300000000000000000))
          ''Q1'')
       = Some (Finite (5404319552844595 / 9007199254740992))
   \<and> myBonds
        (rev (one_user_events ''1'' 100000000000000000 200000000000000000 300000000000000000))
       \<noteq> myBonds
           (one_user_events ''1'' 100000000000000000 200000000000000000 300000000000000000)"
proof -
  let ?E = "one_user_events ''1'' 100000000000000000 200000000000000000 300000000000000000"
  have p: "mset (rev ?E) = mset ?E" by (simp only: mset_rev)
  have a: "bondsByAnswer ?E ''1'' = Some (Finite (1351079888211149 / 2251799813685248))"
    by (simp add: bondsByAnswer_lookup js_sum_def amounts_def one_user_events_def answer_event_def
        tenth_evals add_d1_d2 add_d12_d3 del: js_add.simps)
  have b: "bondsByAnswer (rev ?E) ''1'' = Some (Finite (5404319552844595 / 9007199254740992))"
    by (simp add: bondsByAnswer_lookup js_sum_def amounts_def one_user_events_def answer_event_def
        tenth_evals add_d3_d2 add_d32_d1 del: js_add.simps)
  have ne: "bondsByAnswer (rev ?E) \<noteq> bondsByAnswer ?E"
  proof
    assume "bondsByAnswer (rev ?E) = bondsByAnswer ?E"
    then have "bondsByAnswer (rev ?E) ''1'' = bondsByAnswer ?E ''1''" by (rule arg_cong)
    then show False unfolding a b by simp
  qed
  have c: "map_option total (myBonds ?E ''Q1'')
      = Some (Finite (1351079888211149 / 2251799813685248))"
    by (simp add: myBonds_lookup js_sum_def amounts_def one_user_events_def answer_event_def
        tenth_evals add_d1_d2 add_d12_d3 del: js_add.simps)
  have d: "map_option total (myBonds (rev ?E) ''Q1'')
      = Some (Finite (5404319552844595 / 9007199254740992))"
    by (simp add: myBonds_lookup js_sum_def amounts_def one_user_events_def answer_event_def
        tenth_evals add_d3_d2 add_d32_d1 del: js_add.simps)
  have ne': "myBonds (rev ?E) \<noteq> myBonds ?E"
  proof
    assume "myBonds (rev ?E) = myBonds ?E"
    then have "map_option total (myBonds (rev ?E) ''Q1'') = map_option total (myBonds ?E ''Q1'')"
      by simp
    then show False unfolding c d by simp
  qed
  from p a b ne c d ne' show ?thesis by blast
qed

section \<open>The grand total of a question\<close>

text \<open>
  C6, as the code has it. \<open>total\<close> and the per-answer amounts are accumulated
  separately, each rounding along its own order. Take any event sequence and a question
  id with an entry in the result of the loop of \<open>getMyBonds\<close>. If the converted bonds of
  that question's events add exactly in ledger order, and so do those of its events for
  each answer id, or if the entry holds a single answer, then the entry's grand total is
  the exact sum of its per-answer amounts (which are finitely many).
\<close>

theorem myBonds_total_is_sum:
  assumes "myBonds events q = Some entry"
    and "(adds_exactly (amounts (filter (\<lambda>e. question_id e = q) events))
          \<and> (\<forall>a. adds_exactly
                   (amounts (filter (\<lambda>e. question_id e = q \<and> answer e = a) events))))
         \<or> (\<exists>a. dom (by_answer entry) = {a})"
  shows "finite (dom (by_answer entry)) \<and> total entry = sum_of_amounts (by_answer entry)"
  using myBonds_total_sum [OF assms] by blast

lemma sum_of_two_amounts:
  "a \<noteq> b \<Longrightarrow> sum_of_amounts [a \<mapsto> Finite x, b \<mapsto> Finite y] = Finite (x + y)"
proof -
  assume ab: "a \<noteq> b"
  have d: "dom [a \<mapsto> Finite x, b \<mapsto> Finite y] = {a, b}" by auto
  have r: "Infinity \<notin> ran [a \<mapsto> Finite x, b \<mapsto> Finite y]"
    by (auto simp: ran_def split: if_splits)
  show ?thesis unfolding sum_of_amounts_def d using ab r by simp
qed

lemma sum_of_one_amount: "sum_of_amounts [a \<mapsto> Finite x] = Finite x"
  by (simp add: sum_of_amounts_def)

lemma myBonds_two_answers_whole:
  "myBonds (one_user_events ''2'' 10000000000000000000 5000000000000000000 3000000000000000000)
       ''Q1''
     = Some \<lparr> total = Finite 18, by_answer = [''1'' \<mapsto> Finite 13, ''2'' \<mapsto> Finite 5] \<rparr>"
proof -
  let ?E = "one_user_events ''2'' 10000000000000000000 5000000000000000000 3000000000000000000"
  have f: "filter (\<lambda>e. question_id e = ''Q1'') ?E = ?E"
    by (simp add: one_user_events_def answer_event_def)
  have ne: "?E \<noteq> []" by (simp add: one_user_events_def)
  have t: "js_sum (amounts ?E) = Finite 18"
    by (simp add: amounts_def js_sum_def one_user_events_def answer_event_def whole_evals
        del: js_add.simps)
  have b: "bondsByAnswer ?E = [''1'' \<mapsto> Finite 13, ''2'' \<mapsto> Finite 5]"
    by (rule ext)
      (simp add: bondsByAnswer_lookup js_sum_def amounts_def one_user_events_def answer_event_def
        whole_evals del: js_add.simps)
  show ?thesis unfolding myBonds_lookup f t b using ne by simp
qed

lemma myBonds_one_answer_tenths:
  "myBonds (one_user_events ''1'' 100000000000000000 200000000000000000 300000000000000000)
       ''Q1''
     = Some \<lparr> total = Finite (1351079888211149 / 2251799813685248),
              by_answer = [''1'' \<mapsto> Finite (1351079888211149 / 2251799813685248)] \<rparr>"
proof -
  let ?E = "one_user_events ''1'' 100000000000000000 200000000000000000 300000000000000000"
  have f: "filter (\<lambda>e. question_id e = ''Q1'') ?E = ?E"
    by (simp add: one_user_events_def answer_event_def)
  have ne: "?E \<noteq> []" by (simp add: one_user_events_def)
  have t: "js_sum (amounts ?E) = Finite (1351079888211149 / 2251799813685248)"
    by (simp add: amounts_def js_sum_def one_user_events_def answer_event_def tenth_evals
        add_d1_d2 add_d12_d3 del: js_add.simps)
  have b: "bondsByAnswer ?E = [''1'' \<mapsto> Finite (1351079888211149 / 2251799813685248)]"
    by (rule ext)
      (simp add: bondsByAnswer_lookup js_sum_def amounts_def one_user_events_def answer_event_def
        tenth_evals add_d1_d2 add_d12_d3 del: js_add.simps)
  show ?thesis unfolding myBonds_lookup f t b using ne by simp
qed

theorem myBonds_total_is_sum_witness:
  "myBonds (one_user_events ''2'' 10000000000000000000 5000000000000000000 3000000000000000000)
       ''Q1''
     = Some \<lparr> total = Finite 18, by_answer = [''1'' \<mapsto> Finite 13, ''2'' \<mapsto> Finite 5] \<rparr>
   \<and> adds_exactly (amounts (filter (\<lambda>e. question_id e = ''Q1'')
        (one_user_events ''2'' 10000000000000000000 5000000000000000000 3000000000000000000)))
   \<and> (\<forall>a. adds_exactly (amounts (filter (\<lambda>e. question_id e = ''Q1'' \<and> answer e = a)
        (one_user_events ''2'' 10000000000000000000 5000000000000000000 3000000000000000000))))
   \<and> Finite 18 = sum_of_amounts [''1'' \<mapsto> Finite 13, ''2'' \<mapsto> Finite 5]
   \<and> myBonds (one_user_events ''1'' 100000000000000000 200000000000000000 300000000000000000)
       ''Q1''
     = Some \<lparr> total = Finite (1351079888211149 / 2251799813685248),
              by_answer = [''1'' \<mapsto> Finite (1351079888211149 / 2251799813685248)] \<rparr>
   \<and> Finite (1351079888211149 / 2251799813685248)
       = sum_of_amounts [''1'' \<mapsto> Finite (1351079888211149 / 2251799813685248)]"
proof -
  let ?E = "one_user_events ''2'' 10000000000000000000 5000000000000000000 3000000000000000000"
  let ?T = "one_user_events ''1'' 100000000000000000 200000000000000000 300000000000000000"
  have q: "adds_exactly (amounts (filter (\<lambda>e. question_id e = ''Q1'') ?E))"
    by (simp add: one_user_events_def answer_event_def amounts_def whole_evals adds_exactly_def
        representable_numeral)
  have a: "adds_exactly (amounts (filter (\<lambda>e. question_id e = ''Q1'' \<and> answer e = a) ?E))"
    for a
    by (auto simp add: one_user_events_def answer_event_def amounts_def whole_evals
        adds_exactly_def representable_numeral)
  from myBonds_total_is_sum [OF myBonds_two_answers_whole] q a
  have 1: "Finite 18 = sum_of_amounts [''1'' \<mapsto> Finite 13, ''2'' \<mapsto> Finite 5]"
    by simp
  have "\<exists>a. dom (by_answer \<lparr> total = Finite (1351079888211149 / 2251799813685248),
              by_answer = [''1'' \<mapsto> Finite (1351079888211149 / 2251799813685248)] \<rparr>) = {a}"
    by simp
  with myBonds_total_is_sum [OF myBonds_one_answer_tenths]
  have 2: "Finite (1351079888211149 / 2251799813685248)
       = sum_of_amounts [''1'' \<mapsto> Finite (1351079888211149 / 2251799813685248)]"
    by simp
  from myBonds_two_answers_whole myBonds_one_answer_tenths q a 1 2 show ?thesis by blast
qed

text \<open>
  C6 as stated fails: for bonds of \<open>0.3\<close>, \<open>0.2\<close> and \<open>0.1\<close> tokens by one user on the
  answers \<open>1\<close>, \<open>2\<close>, \<open>1\<close> of one question, the grand total is \<open>(0.3 + 0.2) + 0.1 = 0.6\<close>,
  while the per-answer amounts are \<open>0.3 + 0.1 = 0.4\<close> and \<open>0.2\<close>, whose sum is not the
  double \<open>0.6\<close>, neither exactly nor as the JavaScript sum \<open>0.6000000000000001\<close>, in
  either order.
\<close>

theorem myBonds_total_counterexample:
  "myBonds (one_user_events ''2'' 300000000000000000 200000000000000000 100000000000000000)
       ''Q1''
     = Some \<lparr> total = Finite (5404319552844595 / 9007199254740992),
              by_answer = [''1'' \<mapsto> Finite (3602879701896397 / 9007199254740992),
                           ''2'' \<mapsto> Finite (3602879701896397 / 18014398509481984)] \<rparr>
   \<and> sum_of_amounts [''1'' \<mapsto> Finite (3602879701896397 / 9007199254740992),
                     ''2'' \<mapsto> Finite (3602879701896397 / 18014398509481984)]
       = Finite (10808639105689191 / 18014398509481984)
   \<and> Finite (10808639105689191 / 18014398509481984)
       \<noteq> Finite (5404319552844595 / 9007199254740992)
   \<and> js_add (Finite (3602879701896397 / 9007199254740992))
            (Finite (3602879701896397 / 18014398509481984))
       = Finite (1351079888211149 / 2251799813685248)
   \<and> js_add (Finite (3602879701896397 / 18014398509481984))
            (Finite (3602879701896397 / 9007199254740992))
       = Finite (1351079888211149 / 2251799813685248)
   \<and> Finite (1351079888211149 / 2251799813685248)
       \<noteq> Finite (5404319552844595 / 9007199254740992)"
proof -
  let ?E = "one_user_events ''2'' 300000000000000000 200000000000000000 100000000000000000"
  have f: "filter (\<lambda>e. question_id e = ''Q1'') ?E = ?E"
    by (simp add: one_user_events_def answer_event_def)
  have ne: "?E \<noteq> []" by (simp add: one_user_events_def)
  have t: "js_sum (amounts ?E) = Finite (5404319552844595 / 9007199254740992)"
    by (simp add: amounts_def js_sum_def one_user_events_def answer_event_def tenth_evals
        add_d3_d2 add_d32_d1 del: js_add.simps)
  have b: "bondsByAnswer ?E
      = [''1'' \<mapsto> Finite (3602879701896397 / 9007199254740992),
         ''2'' \<mapsto> Finite (3602879701896397 / 18014398509481984)]"
    by (rule ext)
      (simp add: bondsByAnswer_lookup js_sum_def amounts_def one_user_events_def answer_event_def
        tenth_evals add_d3_d1 del: js_add.simps)
  have 1: "myBonds ?E ''Q1''
     = Some \<lparr> total = Finite (5404319552844595 / 9007199254740992),
              by_answer = [''1'' \<mapsto> Finite (3602879701896397 / 9007199254740992),
                           ''2'' \<mapsto> Finite (3602879701896397 / 18014398509481984)] \<rparr>"
    unfolding myBonds_lookup f t b using ne by simp
  have 2: "sum_of_amounts [''1'' \<mapsto> Finite (3602879701896397 / 9007199254740992),
                     ''2'' \<mapsto> Finite (3602879701896397 / 18014398509481984)]
       = Finite (10808639105689191 / 18014398509481984)"
    by (simp add: sum_of_two_amounts)
  have 3: "Finite (10808639105689191 / 18014398509481984)
       \<noteq> Finite (5404319552844595 / 9007199254740992)"
    by simp
  have 4: "js_add (Finite (3602879701896397 / 9007199254740992))
            (Finite (3602879701896397 / 18014398509481984))
       = Finite (1351079888211149 / 2251799813685248)"
    by (rule add_d31_d2)
  have 5: "js_add (Finite (3602879701896397 / 18014398509481984))
            (Finite (3602879701896397 / 9007199254740992))
       = Finite (1351079888211149 / 2251799813685248)"
    by (simp only: js_add_commute [of "Finite (3602879701896397 / 18014398509481984)"] add_d31_d2)
  have 6: "Finite (1351079888211149 / 2251799813685248)
       \<noteq> Finite (5404319552844595 / 9007199254740992)"
    by simp
  from 1 2 3 4 5 6 show ?thesis by blast
qed

section \<open>Raw and converted bonds\<close>

text \<open>
  C10. The bonds of the claim chain that \<open>claimWinnings\<close> builds are the events' raw
  ledger amounts, reversed and otherwise untouched: no conversion is applied. The
  aggregation paths convert at 18 decimals: the question object that \<open>getQuestion\<close>
  builds holds \<open>fromDecimalsNumber\<close> of the stored bond, every per-answer total of the
  loop of \<open>getQuestionBondsByAnswer\<close> is the JavaScript sum of
  \<open>fromDecimalsNumber (bond e) 18\<close> over the events with that answer, and in the loop of
  \<open>getMyBonds\<close> the grand total of a question and each of its per-answer amounts are
  such sums over the events of that question and of that question and answer.
\<close>

theorem claim_bonds_raw_aggregates_converted:
  "arg_bonds (claim_chain questionId events) = rev (map bond events)
   \<and> qbond (question_object questionId q fin) = fromDecimalsNumber (qs_bond q) 18
   \<and> bondsByAnswer events a
       = (if filter (\<lambda>e. answer e = a) events = [] then None
          else Some (js_sum (map (\<lambda>e. fromDecimalsNumber (bond e) 18)
                               (filter (\<lambda>e. answer e = a) events))))
   \<and> myBonds events qq
       = (if filter (\<lambda>e. question_id e = qq) events = [] then None
          else Some \<lparr> total = js_sum (map (\<lambda>e. fromDecimalsNumber (bond e) 18)
                                       (filter (\<lambda>e. question_id e = qq) events)),
                      by_answer = (\<lambda>a'.
                        if filter (\<lambda>e. question_id e = qq \<and> answer e = a') events = []
                        then None
                        else Some (js_sum (map (\<lambda>e. fromDecimalsNumber (bond e) 18)
                               (filter (\<lambda>e. question_id e = qq \<and> answer e = a') events)))) \<rparr>)"
proof -
  have 1: "arg_bonds (claim_chain questionId events) = rev (map bond events)"
    by (simp add: claim_chain_def bonds_def)
  have 2: "qbond (question_object questionId q fin) = fromDecimalsNumber (qs_bond q) 18"
    by (simp add: question_object_def)
  have 3: "bondsByAnswer es k
       = (if filter (\<lambda>e. answer e = k) es = [] then None
          else Some (js_sum (map (\<lambda>e. fromDecimalsNumber (bond e) 18)
                               (filter (\<lambda>e. answer e = k) es))))" for es k
    by (simp add: bondsByAnswer_lookup amounts_def)
  have f: "filter (\<lambda>e. answer e = k) (filter (\<lambda>e. question_id e = qq) events)
      = filter (\<lambda>e. question_id e = qq \<and> answer e = k) events" for k
    by (simp add: conj_commute)
  have 4: "bondsByAnswer (filter (\<lambda>e. question_id e = qq) events)
      = (\<lambda>a'. if filter (\<lambda>e. question_id e = qq \<and> answer e = a') events = [] then None
           else Some (js_sum (map (\<lambda>e. fromDecimalsNumber (bond e) 18)
                  (filter (\<lambda>e. question_id e = qq \<and> answer e = a') events))))"
    by (rule ext) (simp only: 3 f)
  have 5: "myBonds events qq
       = (if filter (\<lambda>e. question_id e = qq) events = [] then None
          else Some \<lparr> total = js_sum (map (\<lambda>e. fromDecimalsNumber (bond e) 18)
                                       (filter (\<lambda>e. question_id e = qq) events)),
                      by_answer = (\<lambda>a'.
                        if filter (\<lambda>e. question_id e = qq \<and> answer e = a') events = []
                        then None
                        else Some (js_sum (map (\<lambda>e. fromDecimalsNumber (bond e) 18)
                               (filter (\<lambda>e. question_id e = qq \<and> answer e = a') events)))) \<rparr>)"
    unfolding myBonds_lookup 4 by (simp add: amounts_def)
  from 1 2 3 [of events a] 5 show ?thesis by blast
qed

end
